theory Spec2Isabelle
  imports Complex_Main "HOL-Library.AList"
begin

section \<open>Python values\<close>

text \<open>
  The affinity engine of \<^verbatim>\<open>bin/affinity.py\<close> works on what \<^verbatim>\<open>json.load\<close> returns: untyped
  Python values built from \<^verbatim>\<open>None\<close>, booleans, integers, floats, strings, lists and
  dictionaries with string keys.  A dictionary is an association list in insertion order
  (iteration order decides ties); its keys are pairwise different in every value Python can
  build.  Floats are idealised as real numbers: rounding error, overflow, infinities and
  NaN of IEEE doubles are outside the model.
\<close>

datatype pyval =
    PNone
  | PBool bool
  | PInt int
  | PFloat real
  | PStr string
  | PList "pyval list"
  | PDict "(string \<times> pyval) list"

datatype py_error = KeyError | TypeError | AttributeError | ZeroDivisionError

text \<open>Sequencing of computations that may raise: the first exception ends the computation.\<close>

fun on_ok :: "py_error + 'a \<Rightarrow> ('a \<Rightarrow> py_error + 'b) \<Rightarrow> py_error + 'b" where
  "on_ok (Inl e) f = Inl e"
| "on_ok (Inr x) f = f x"

text \<open>
  A \<^verbatim>\<open>for\<close> loop over a list with a loop state.  An exception raised by the body ends the
  loop; the state reached so far is returned with it, because mutations already made to shared
  objects stay made.
\<close>

fun for_each :: "('s \<Rightarrow> 'a \<Rightarrow> py_error + 's) \<Rightarrow> 'a list \<Rightarrow> 's \<Rightarrow> py_error option \<times> 's" where
  "for_each body [] s = (None, s)"
| "for_each body (x # xs) s =
     (case body s x of Inl e \<Rightarrow> (Some e, s) | Inr s' \<Rightarrow> for_each body xs s')"

text \<open>The numeric value of a Python number; \<^verbatim>\<open>bool\<close> is a subclass of \<^verbatim>\<open>int\<close>.\<close>

fun py_num :: "pyval \<Rightarrow> real option" where
  "py_num (PInt i) = Some (real_of_int i)"
| "py_num (PFloat r) = Some r"
| "py_num (PBool b) = Some (if b then 1 else 0)"
| "py_num _ = None"

text \<open>Truth value of a Python object, as \<^verbatim>\<open>if x:\<close> tests it.\<close>

fun py_truthy :: "pyval \<Rightarrow> bool" where
  "py_truthy PNone = False"
| "py_truthy (PBool b) = b"
| "py_truthy (PInt i) = (i \<noteq> 0)"
| "py_truthy (PFloat r) = (r \<noteq> 0)"
| "py_truthy (PStr s) = (s \<noteq> [])"
| "py_truthy (PList xs) = (xs \<noteq> [])"
| "py_truthy (PDict kvs) = (kvs \<noteq> [])"

text \<open>\<^verbatim>\<open>x[k]\<close> for a string \<^verbatim>\<open>k\<close>: only a dictionary can be indexed by a string.\<close>

fun py_getitem :: "pyval \<Rightarrow> string \<Rightarrow> py_error + pyval" where
  "py_getitem (PDict kvs) k = (case map_of kvs k of None \<Rightarrow> Inl KeyError | Some v \<Rightarrow> Inr v)"
| "py_getitem _ k = Inl TypeError"

text \<open>
  \<^verbatim>\<open>x[k] = v\<close> for a string \<^verbatim>\<open>k\<close>: a dictionary replaces the value of a key it has, in
  place, and appends a key it has not.
\<close>

fun py_setitem :: "pyval \<Rightarrow> string \<Rightarrow> pyval \<Rightarrow> py_error + pyval" where
  "py_setitem (PDict kvs) k v = Inr (PDict (AList.update k v kvs))"
| "py_setitem _ k v = Inl TypeError"

text \<open>\<^verbatim>\<open>x.get(k, d)\<close> and \<^verbatim>\<open>x.items()\<close>: only a dictionary has these methods.\<close>

fun py_get :: "pyval \<Rightarrow> string \<Rightarrow> pyval \<Rightarrow> py_error + pyval" where
  "py_get (PDict kvs) k d = (case map_of kvs k of None \<Rightarrow> Inr d | Some v \<Rightarrow> Inr v)"
| "py_get _ k d = Inl AttributeError"

fun py_items :: "pyval \<Rightarrow> py_error + (string \<times> pyval) list" where
  "py_items (PDict kvs) = Inr kvs"
| "py_items _ = Inl AttributeError"

text \<open>
  Strings are lists of 8-bit characters; \<^verbatim>\<open>str.lower\<close> is modelled on ASCII, where it maps
  \<^verbatim>\<open>A\<close>..\<^verbatim>\<open>Z\<close> to \<^verbatim>\<open>a\<close>..\<^verbatim>\<open>z\<close> and leaves every other character alone.
\<close>

definition lower_char :: "char \<Rightarrow> char" where
  "lower_char c =
     (let n = (of_char c :: nat) in if 65 \<le> n \<and> n \<le> 90 then char_of (n + 32) else c)"

definition lower :: "string \<Rightarrow> string" where
  "lower s = map lower_char s"

fun starts_with :: "string \<Rightarrow> string \<Rightarrow> bool" where
  "starts_with [] s = True"
| "starts_with (k # ks) [] = False"
| "starts_with (k # ks) (c # cs) = (k = c \<and> starts_with ks cs)"

text \<open>\<^verbatim>\<open>kw in s\<close> for two strings: \<^verbatim>\<open>kw\<close> occurs in \<^verbatim>\<open>s\<close> as a contiguous substring.\<close>

fun py_in_str :: "string \<Rightarrow> string \<Rightarrow> bool" where
  "py_in_str kw [] = (kw = [])"
| "py_in_str kw (c # cs) = (starts_with kw (c # cs) \<or> py_in_str kw cs)"

text \<open>
  \<^verbatim>\<open>k in x\<close> for a string \<^verbatim>\<open>k\<close>: key membership in a dictionary, element membership in a
  list, substring test in a string; any other \<^verbatim>\<open>x\<close> is not iterable.
\<close>

fun py_contains :: "string \<Rightarrow> pyval \<Rightarrow> py_error + bool" where
  "py_contains k (PDict kvs) = Inr (k \<in> set (map fst kvs))"
| "py_contains k (PList xs) = Inr (PStr k \<in> set xs)"
| "py_contains k (PStr s) = Inr (py_in_str k s)"
| "py_contains k _ = Inl TypeError"

text \<open>
  \<^verbatim>\<open>x\<close> as an operand of arithmetic with a float (\<^verbatim>\<open>x + a\<close>, \<^verbatim>\<open>x * a\<close>), \<^verbatim>\<open>x + 1\<close>, and
  \<^verbatim>\<open>x > y\<close> for a number \<^verbatim>\<open>y\<close>: each raises \<^verbatim>\<open>TypeError\<close> unless \<^verbatim>\<open>x\<close> is a number.
  (\<^verbatim>\<open>py_gt\<close> is only ever called with a number on the right.)
\<close>

definition py_operand :: "pyval \<Rightarrow> py_error + real" where
  "py_operand x = (case py_num x of None \<Rightarrow> Inl TypeError | Some r \<Rightarrow> Inr r)"

fun py_add_one :: "pyval \<Rightarrow> py_error + pyval" where
  "py_add_one (PInt i) = Inr (PInt (i + 1))"
| "py_add_one (PBool b) = Inr (PInt ((if b then 1 else 0) + 1))"
| "py_add_one (PFloat r) = Inr (PFloat (r + 1))"
| "py_add_one _ = Inl TypeError"

definition py_gt :: "pyval \<Rightarrow> pyval \<Rightarrow> py_error + bool" where
  "py_gt x y =
     (case (py_num x, py_num y) of
        (Some a, Some b) \<Rightarrow> Inr (a > b)
      | _ \<Rightarrow> Inl TypeError)"

text \<open>
  \<^verbatim>\<open>round(x, ndigits)\<close> on a float: to the nearest multiple of \<open>10^-ndigits\<close>, a value exactly
  half way between two going to the one with an even last digit.
\<close>

definition py_round :: "real \<Rightarrow> nat \<Rightarrow> real" where
  "py_round x ndigits =
     (let y = x * 10 ^ ndigits;
          f = \<lfloor>y\<rfloor>;
          d = y - of_int f
      in (if d < 1/2 then of_int f
          else if d > 1/2 then of_int (f + 1)
          else if even f then of_int f else of_int (f + 1)) / 10 ^ ndigits)"

section \<open>The tables of the module\<close>

text \<open>The score read for a task type that a variant has no entry for (the literal \<^verbatim>\<open>0.5\<close>).\<close>

definition default_score :: pyval where
  "default_score = PFloat 0.5"

definition TASK_PATTERNS :: "(string \<times> string list) list" where
  "TASK_PATTERNS = [
    (''planning'',
      [''plan'', ''design'', ''architect'', ''implement'', ''feature'', ''roadmap'', ''strategy'']),
    (''debugging'',
      [''fix'', ''bug'', ''error'', ''issue'', ''broken'', ''failing'', ''crash'', ''debug'']),
    (''refactoring'',
      [''refactor'', ''clean'', ''improve'', ''optimize'', ''restructure'', ''modernize'']),
    (''documentation'',
      [''doc'', ''readme'', ''comment'', ''explain'', ''document'']),
    (''testing'',
      [''test'', ''spec'', ''coverage'', ''assert'', ''mock'', ''e2e'']),
    (''review'',
      [''review'', ''audit'', ''check'', ''analyze'', ''assess'']),
    (''generation'',
      [''create'', ''generate'', ''scaffold'', ''new'', ''add'', ''build''])]"

definition DEFAULT_AFFINITY :: pyval where
  "DEFAULT_AFFINITY = PDict [
      (''research'', PDict [
        (''v1'', PDict
          [(''planning'', PFloat 0.72), (''debugging'', PFloat 0.45), (''refactoring'', PFloat 0.68), (''documentation'', PFloat 0.50),
           (''testing'', PFloat 0.55), (''review'', PFloat 0.60), (''generation'', PFloat 0.65)]),
        (''v2'', PDict
          [(''planning'', PFloat 0.81), (''debugging'', PFloat 0.52), (''refactoring'', PFloat 0.71), (''documentation'', PFloat 0.65),
           (''testing'', PFloat 0.60), (''review'', PFloat 0.75), (''generation'', PFloat 0.70)]),
        (''v3'', PDict
          [(''planning'', PFloat 0.65), (''debugging'', PFloat 0.78), (''refactoring'', PFloat 0.59), (''documentation'', PFloat 0.40),
           (''testing'', PFloat 0.70), (''review'', PFloat 0.55), (''generation'', PFloat 0.80)])]),
      (''structure'', PDict [
        (''v1'', PDict
          [(''planning'', PFloat 0.88), (''debugging'', PFloat 0.61), (''refactoring'', PFloat 0.74), (''documentation'', PFloat 0.70),
           (''testing'', PFloat 0.65), (''review'', PFloat 0.80), (''generation'', PFloat 0.72)]),
        (''v2'', PDict
          [(''planning'', PFloat 0.71), (''debugging'', PFloat 0.69), (''refactoring'', PFloat 0.82), (''documentation'', PFloat 0.60),
           (''testing'', PFloat 0.75), (''review'', PFloat 0.68), (''generation'', PFloat 0.78)]),
        (''v3'', PDict
          [(''planning'', PFloat 0.60), (''debugging'', PFloat 0.75), (''refactoring'', PFloat 0.65), (''documentation'', PFloat 0.45),
           (''testing'', PFloat 0.80), (''review'', PFloat 0.55), (''generation'', PFloat 0.85)])]),
      (''output'', PDict [
        (''v1'', PDict
          [(''planning'', PFloat 0.85), (''debugging'', PFloat 0.60), (''refactoring'', PFloat 0.70), (''documentation'', PFloat 0.80),
           (''testing'', PFloat 0.55), (''review'', PFloat 0.75), (''generation'', PFloat 0.65)]),
        (''v2'', PDict
          [(''planning'', PFloat 0.70), (''debugging'', PFloat 0.70), (''refactoring'', PFloat 0.75), (''documentation'', PFloat 0.65),
           (''testing'', PFloat 0.70), (''review'', PFloat 0.65), (''generation'', PFloat 0.75)]),
        (''v3'', PDict
          [(''planning'', PFloat 0.55), (''debugging'', PFloat 0.80), (''refactoring'', PFloat 0.60), (''documentation'', PFloat 0.40),
           (''testing'', PFloat 0.85), (''review'', PFloat 0.50), (''generation'', PFloat 0.88)])]),
      (''workflow'', PDict [
        (''v1'', PDict
          [(''planning'', PFloat 0.80), (''debugging'', PFloat 0.55), (''refactoring'', PFloat 0.65), (''documentation'', PFloat 0.70),
           (''testing'', PFloat 0.60), (''review'', PFloat 0.85), (''generation'', PFloat 0.60)]),
        (''v2'', PDict
          [(''planning'', PFloat 0.75), (''debugging'', PFloat 0.70), (''refactoring'', PFloat 0.80), (''documentation'', PFloat 0.65),
           (''testing'', PFloat 0.75), (''review'', PFloat 0.70), (''generation'', PFloat 0.70)]),
        (''v3'', PDict
          [(''planning'', PFloat 0.65), (''debugging'', PFloat 0.85), (''refactoring'', PFloat 0.70), (''documentation'', PFloat 0.50),
           (''testing'', PFloat 0.80), (''review'', PFloat 0.60), (''generation'', PFloat 0.85)])]),
      (''input'', PDict [
        (''v1'', PDict
          [(''planning'', PFloat 0.70), (''debugging'', PFloat 0.75), (''refactoring'', PFloat 0.65), (''documentation'', PFloat 0.80),
           (''testing'', PFloat 0.70), (''review'', PFloat 0.75), (''generation'', PFloat 0.60)]),
        (''v2'', PDict
          [(''planning'', PFloat 0.75), (''debugging'', PFloat 0.70), (''refactoring'', PFloat 0.70), (''documentation'', PFloat 0.65),
           (''testing'', PFloat 0.65), (''review'', PFloat 0.70), (''generation'', PFloat 0.75)])]),
      (''validation'', PDict [
        (''v1'', PDict
          [(''planning'', PFloat 0.60), (''debugging'', PFloat 0.85), (''refactoring'', PFloat 0.80), (''documentation'', PFloat 0.50),
           (''testing'', PFloat 0.90), (''review'', PFloat 0.75), (''generation'', PFloat 0.70)]),
        (''v2'', PDict
          [(''planning'', PFloat 0.70), (''debugging'', PFloat 0.80), (''refactoring'', PFloat 0.85), (''documentation'', PFloat 0.55),
           (''testing'', PFloat 0.85), (''review'', PFloat 0.80), (''generation'', PFloat 0.75)]),
        (''v3'', PDict
          [(''planning'', PFloat 0.80), (''debugging'', PFloat 0.50), (''refactoring'', PFloat 0.60), (''documentation'', PFloat 0.70),
           (''testing'', PFloat 0.55), (''review'', PFloat 0.65), (''generation'', PFloat 0.80)])])]"

section \<open>The persisted state\<close>

text \<open>
  What a run of the program can see of its surroundings: the file \<^verbatim>\<open>AFFINITY_FILE\<close>, which
  is absent, present with a content that \<^verbatim>\<open>json.load\<close> rejects, or present with a content
  that it parses to a value; and the module-level object \<^verbatim>\<open>DEFAULT_AFFINITY\<close> as it stands
  in the running process.  The object starts as the literal above, and
  \<^verbatim>\<open>load_affinity_matrix\<close> hands out the object itself, not a copy.  Input and output
  errors of the host (a disk that is full, a directory that cannot be read) are not modelled.
\<close>

datatype file_content = Missing | Unparseable | Parsed pyval

record world =
  affinity_file :: file_content
  default_affinity :: pyval

definition initial_world :: world where
  "initial_world = \<lparr>affinity_file = Missing, default_affinity = DEFAULT_AFFINITY\<rparr>"

definition load_affinity_matrix :: "world \<Rightarrow> pyval" where
  "load_affinity_matrix w =
     (case affinity_file w of
        Parsed data \<Rightarrow> data
      | _ \<Rightarrow> PDict [(''matrix'', default_affinity w),
                    (''observations'', PInt 0),
                    (''last_updated'', PNone)])"

text \<open>\<^verbatim>\<open>now\<close> is the reading of the clock, already formatted.\<close>

definition save_affinity_matrix :: "pyval \<Rightarrow> string \<Rightarrow> world \<Rightarrow> py_error + world" where
  "save_affinity_matrix data now w =
     on_ok (py_setitem data ''last_updated'' (PStr now))
       (\<lambda>data'. Inr (w\<lparr>affinity_file := Parsed data'\<rparr>))"

section \<open>Classification\<close>

text \<open>\<^verbatim>\<open>sum(1 for kw in keywords if kw in context_lower)\<close>\<close>

definition keyword_score :: "string list \<Rightarrow> string \<Rightarrow> int" where
  "keyword_score keywords context_lower =
     int (length (filter (\<lambda>kw. py_in_str kw context_lower) keywords))"

text \<open>The loop that fills the dictionary \<^verbatim>\<open>scores\<close>.\<close>

fun collect_scores ::
  "(string \<times> string list) list \<Rightarrow> string \<Rightarrow> (string \<times> int) list \<Rightarrow> (string \<times> int) list" where
  "collect_scores [] context_lower scores = scores"
| "collect_scores ((task_type, keywords) # rest) context_lower scores =
     (let score = keyword_score keywords context_lower
      in collect_scores rest context_lower
           (if score > 0 then AList.update task_type score scores else scores))"

text \<open>
  \<^verbatim>\<open>max(items, key=...)\<close> on a sequence with first element \<^verbatim>\<open>best\<close>: a later element
  replaces the current one only when its key is strictly greater.
\<close>

fun max_by_key :: "('a \<Rightarrow> int) \<Rightarrow> 'a \<Rightarrow> 'a list \<Rightarrow> 'a" where
  "max_by_key key best [] = best"
| "max_by_key key best (x # xs) = max_by_key key (if key x > key best then x else best) xs"

definition classify_task :: "string \<Rightarrow> string" where
  "classify_task context =
     (let context_lower = lower context;
          scores = collect_scores TASK_PATTERNS context_lower []
      in case scores of
           [] \<Rightarrow> ''generation''
         | first # others \<Rightarrow> fst (max_by_key snd first others))"

section \<open>Selection of the best variants\<close>

text \<open>The body of the inner loop: the state is \<^verbatim>\<open>(best_variant, best_score)\<close>.\<close>

definition scan_variant :: "string \<Rightarrow> pyval \<times> pyval \<Rightarrow> string \<times> pyval \<Rightarrow> py_error + pyval \<times> pyval" where
  "scan_variant task_type best entry =
     (case best of (best_variant, best_score) \<Rightarrow>
      case entry of (variant, scores) \<Rightarrow>
        on_ok (py_get scores task_type default_score) (\<lambda>score.
        on_ok (py_gt score best_score) (\<lambda>greater.
          if greater then Inr (PStr variant, score) else Inr (best_variant, best_score))))"

text \<open>The body of the outer loop: the state is the dictionary \<^verbatim>\<open>best\<close>.\<close>

definition scan_module ::
  "string \<Rightarrow> (string \<times> pyval) list \<Rightarrow> string \<times> pyval \<Rightarrow> py_error + (string \<times> pyval) list" where
  "scan_module task_type best entry =
     (case entry of (module_type, variants) \<Rightarrow>
        on_ok (py_items variants) (\<lambda>items.
          case for_each (scan_variant task_type) items (PNone, PInt (- 1)) of
            (Some e, _) \<Rightarrow> Inl e
          | (None, (best_variant, best_score)) \<Rightarrow>
              if py_truthy best_variant
              then Inr (AList.update module_type
                     (PDict [(''variant'', best_variant), (''score'', best_score)]) best)
              else Inr best))"

text \<open>The argument \<^verbatim>\<open>matrix\<close> defaults to \<^verbatim>\<open>None\<close>, which is \<^verbatim>\<open>PNone\<close>.\<close>

definition get_best_modules :: "string \<Rightarrow> pyval \<Rightarrow> world \<Rightarrow> py_error + pyval" where
  "get_best_modules task_type matrix w =
     on_ok (if matrix = PNone then py_getitem (load_affinity_matrix w) ''matrix'' else Inr matrix)
       (\<lambda>matrix.
          on_ok (py_items matrix) (\<lambda>items.
            case for_each (scan_module task_type) items [] of
              (Some e, _) \<Rightarrow> Inl e
            | (None, best) \<Rightarrow> Inr (PDict best)))"

section \<open>The update\<close>

text \<open>
  Lines 130--131 of \<^verbatim>\<open>update_affinity\<close>:
  \<^verbatim>\<open>learning_rate = max(0.05, 0.3 / (1 + observations * 0.01))\<close>.
  The product raises \<^verbatim>\<open>TypeError\<close> when \<^verbatim>\<open>observations\<close> is not a number, the division
  raises \<^verbatim>\<open>ZeroDivisionError\<close> when the denominator is zero.
\<close>

definition learning_rate :: "pyval \<Rightarrow> py_error + real" where
  "learning_rate observations =
     on_ok (py_operand observations) (\<lambda>n.
       if 1 + n * 0.01 = 0 then Inl ZeroDivisionError
       else Inr (max 0.05 (0.3 / (1 + n * 0.01))))"

text \<open>Lines 137--139: the value stored for a current score that is a number.\<close>

definition new_score :: "real \<Rightarrow> real \<Rightarrow> real \<Rightarrow> real" where
  "new_score current fitness_delta rate =
     (let adjustment = fitness_delta * rate
      in max 0.1 (min 0.99 (current + adjustment)))"

definition stored_score :: "real \<Rightarrow> real \<Rightarrow> real \<Rightarrow> real" where
  "stored_score current fitness_delta rate = py_round (new_score current fitness_delta rate) 3"

text \<open>
  The body of the loop over \<^verbatim>\<open>modules.items()\<close>; the state is the object \<^verbatim>\<open>matrix\<close>.  The
  assignment \<^verbatim>\<open>matrix[module_type][variant][task_type] = ...\<close> changes the innermost
  dictionary in place: in a tree without sharing that is the update of the tree along the path.
\<close>

definition update_pair ::
  "string \<Rightarrow> real \<Rightarrow> real \<Rightarrow> pyval \<Rightarrow> string \<times> string \<Rightarrow> py_error + pyval" where
  "update_pair task_type fitness_delta rate matrix entry =
     (case entry of (module_type, variant) \<Rightarrow>
        on_ok (py_contains module_type matrix) (\<lambda>has_module.
          if \<not> has_module then Inr matrix
          else
            on_ok (py_getitem matrix module_type) (\<lambda>variants.
            on_ok (py_contains variant variants) (\<lambda>has_variant.
              if \<not> has_variant then Inr matrix
              else
                on_ok (py_getitem variants variant) (\<lambda>scores.
                on_ok (py_get scores task_type default_score) (\<lambda>current.
                on_ok (py_operand current) (\<lambda>c.
                on_ok (py_setitem scores task_type
                         (PFloat (stored_score c fitness_delta rate))) (\<lambda>scores'.
                on_ok (py_setitem variants variant scores') (\<lambda>variants'.
                  py_setitem matrix module_type variants')))))))))"

text \<open>
  The object \<^verbatim>\<open>data["matrix"]\<close> that the loop changes in place is the object
  \<^verbatim>\<open>DEFAULT_AFFINITY\<close> itself when the state was not read from a file: the world in which the
  matrix has become \<^verbatim>\<open>matrix'\<close>.
\<close>

definition aliased :: "world \<Rightarrow> pyval \<Rightarrow> world" where
  "aliased w matrix' =
     (case affinity_file w of Parsed _ \<Rightarrow> w | _ \<Rightarrow> w\<lparr>default_affinity := matrix'\<rparr>)"

text \<open>
  \<^verbatim>\<open>update_affinity\<close>, with the clock reading \<^verbatim>\<open>now\<close> that \<^verbatim>\<open>save_affinity_matrix\<close> stamps.
  The result is the exception raised, if any, and the world left behind.  The loop changes
  the object \<^verbatim>\<open>data["matrix"]\<close> in place, so \<^verbatim>\<open>data\<close> holds the changed matrix afterwards;
  when the state was not read from a file, that object is \<^verbatim>\<open>DEFAULT_AFFINITY\<close> itself,
  which is changed with it, also when the loop ends in an exception.
\<close>

definition update_affinity ::
  "string \<Rightarrow> string \<Rightarrow> (string \<times> string) list \<Rightarrow> real \<Rightarrow> string \<Rightarrow> world
     \<Rightarrow> py_error option \<times> world" where
  "update_affinity skill task_type modules fitness_delta now w =
     (let data = load_affinity_matrix w in
      case py_getitem data ''matrix'' of
        Inl e \<Rightarrow> (Some e, w)
      | Inr matrix \<Rightarrow>
         (case py_get data ''observations'' (PInt 0) of
            Inl e \<Rightarrow> (Some e, w)
          | Inr observations \<Rightarrow>
             (case learning_rate observations of
                Inl e \<Rightarrow> (Some e, w)
              | Inr rate \<Rightarrow>
                 (case for_each (update_pair task_type fitness_delta rate) modules matrix of
                    (raised, matrix') \<Rightarrow>
                      let w' = aliased w matrix'
                      in case raised of
                           Some e \<Rightarrow> (Some e, w')
                         | None \<Rightarrow>
                            (case on_ok (py_setitem data ''matrix'' matrix') (\<lambda>data1.
                                  on_ok (py_add_one observations) (\<lambda>counted.
                                  on_ok (py_setitem data1 ''observations'' counted) (\<lambda>data2.
                                    save_affinity_matrix data2 now w'))) of
                               Inl e \<Rightarrow> (Some e, w')
                             | Inr w'' \<Rightarrow> (None, w''))))))"

section \<open>Runs\<close>

text \<open>
  The operations a caller has: the three queries change nothing, the update changes the
  world.  A run performs a list of them in order; an update that raises leaves the world it
  reached and the run goes on, as the batch driver \<^verbatim>\<open>learn_from_telemetry\<close> does.
\<close>

datatype operation =
    Load
  | Classify string
  | Best string pyval
  | Update string string "(string \<times> string) list" real string

fun perform :: "operation \<Rightarrow> world \<Rightarrow> world" where
  "perform Load w = w"
| "perform (Classify context) w = w"
| "perform (Best task_type matrix) w = w"
| "perform (Update skill task_type modules fitness_delta now) w =
     snd (update_affinity skill task_type modules fitness_delta now w)"

definition run :: "operation list \<Rightarrow> world \<Rightarrow> world" where
  "run ops w = fold perform ops w"

text \<open>The number of updates of a run that end without an exception.\<close>

fun successes :: "operation list \<Rightarrow> world \<Rightarrow> nat" where
  "successes [] w = 0"
| "successes (Update skill task_type modules fitness_delta now # ops) w =
     (if fst (update_affinity skill task_type modules fitness_delta now w) = None then 1 else 0)
     + successes ops (perform (Update skill task_type modules fitness_delta now) w)"
| "successes (op # ops) w = successes ops (perform op w)"

section \<open>Observations of a value and of a world\<close>

text \<open>Keys and entries of a value, when it is a dictionary.\<close>

fun py_keys :: "pyval \<Rightarrow> string list" where
  "py_keys (PDict kvs) = map fst kvs"
| "py_keys _ = []"

fun py_lookup :: "pyval \<Rightarrow> string \<Rightarrow> pyval option" where
  "py_lookup (PDict kvs) k = map_of kvs k"
| "py_lookup _ k = None"

text \<open>
  In a matrix: the dictionary of scores of a variant, the entry of a task type in it, and the
  score that the code reads for a triple, \<^verbatim>\<open>matrix[m][v].get(t, 0.5)\<close>, when it is a number.
\<close>

definition scores_at :: "pyval \<Rightarrow> string \<Rightarrow> string \<Rightarrow> pyval option" where
  "scores_at matrix m v = (case py_lookup matrix m of None \<Rightarrow> None | Some vs \<Rightarrow> py_lookup vs v)"

definition score_at :: "pyval \<Rightarrow> string \<Rightarrow> string \<Rightarrow> string \<Rightarrow> pyval option" where
  "score_at matrix m v t = (case scores_at matrix m v of None \<Rightarrow> None | Some ss \<Rightarrow> py_lookup ss t)"

definition get_score :: "pyval \<Rightarrow> string \<Rightarrow> string \<Rightarrow> string \<Rightarrow> real option" where
  "get_score matrix m v t =
     (case scores_at matrix m v of
        None \<Rightarrow> None
      | Some ss \<Rightarrow> (case py_get ss t default_score of Inl e \<Rightarrow> None | Inr x \<Rightarrow> py_num x))"

text \<open>
  What a load sees in a world: the matrix (\<^verbatim>\<open>data["matrix"]\<close>, \<^verbatim>\<open>PNone\<close> standing for
  none) and the observation counter (\<^verbatim>\<open>data.get("observations", 0)\<close>, when it is a number).
\<close>

definition stored_matrix :: "world \<Rightarrow> pyval" where
  "stored_matrix w =
     (case py_getitem (load_affinity_matrix w) ''matrix'' of Inl e \<Rightarrow> PNone | Inr m \<Rightarrow> m)"

definition observations_of :: "world \<Rightarrow> real option" where
  "observations_of w =
     (case py_get (load_affinity_matrix w) ''observations'' (PInt 0) of
        Inl e \<Rightarrow> None
      | Inr x \<Rightarrow> py_num x)"

text \<open>
  Shapes of a matrix: a dictionary of dictionaries of dictionaries whose innermost values are
  numbers, and one whose innermost values are numbers of the interval \<open>[0.1, 0.99]\<close>.
\<close>

fun dict_all :: "(pyval \<Rightarrow> bool) \<Rightarrow> pyval \<Rightarrow> bool" where
  "dict_all P (PDict kvs) = list_all (\<lambda>entry. P (snd entry)) kvs"
| "dict_all P _ = False"


definition in_range :: "pyval \<Rightarrow> bool" where
  "in_range x = (case py_num x of None \<Rightarrow> False | Some c \<Rightarrow> 0.1 \<le> c \<and> c \<le> 0.99)"


definition scores_in_range :: "pyval \<Rightarrow> bool" where
  "scores_in_range matrix = dict_all (dict_all (dict_all in_range)) matrix"

text \<open>Both matrices of a world hold scores of the interval only.\<close>

definition world_in_range :: "world \<Rightarrow> bool" where
  "world_in_range w \<longleftrightarrow> scores_in_range (default_affinity w) \<and> scores_in_range (stored_matrix w)"

text \<open>
  The score read from a dictionary of scores, \<^verbatim>\<open>scores.get(task_type, 0.5)\<close>, when it is a
  number; and the matrices on which the selection is specified.
\<close>

definition score_of :: "string \<Rightarrow> pyval \<Rightarrow> real option" where
  "score_of t scores =
     (case py_get scores t default_score of Inl e \<Rightarrow> None | Inr x \<Rightarrow> py_num x)"

definition selectable :: "string \<Rightarrow> pyval \<Rightarrow> bool" where
  "selectable t matrix =
     (case matrix of
        PDict ms \<Rightarrow>
          distinct (map fst ms)
          \<and> list_all (\<lambda>(m, variants).
               case variants of
                 PDict vs \<Rightarrow>
                   list_all (\<lambda>(v, scores).
                     v \<noteq> [] \<and> (case score_of t scores of None \<Rightarrow> False | Some c \<Rightarrow> - 1 < c)) vs
               | _ \<Rightarrow> False) ms
      | _ \<Rightarrow> False)"

section \<open>Notions of the specification\<close>

text \<open>
  The winner among the variants of a module type in the words of the specification: a variant
  \<open>v\<close> with the value \<open>x\<close> read as its score, every variant before it having a strictly
  smaller score and every variant after it none greater.
\<close>

definition wins :: "string \<Rightarrow> (string \<times> pyval) list \<Rightarrow> string \<Rightarrow> pyval \<Rightarrow> bool" where
  "wins t vs v x \<longleftrightarrow>
     (\<exists>pre scores post c. vs = pre @ (v, scores) # post
        \<and> py_get scores t default_score = Inr x \<and> py_num x = Some c
        \<and> (\<forall>(v', scores')\<in>set pre. \<exists>c'. score_of t scores' = Some c' \<and> c' < c)
        \<and> (\<forall>(v', scores')\<in>set post. \<exists>c'. score_of t scores' = Some c' \<and> c' \<le> c))"



text \<open>
  The count of a task type in the words of the specification: how many of its keywords occur
  in the text as substrings.
\<close>

definition spec_count :: "string list \<Rightarrow> string \<Rightarrow> int" where
  "spec_count keywords text = int (card {kw \<in> set keywords. \<exists>a b. text = a @ kw @ b})"

text \<open>The rate in the words of the specification, for an observation count.\<close>

definition spec_rate :: "nat \<Rightarrow> real" where
  "spec_rate n = max 0.05 (0.3 / (1 + real n * 0.01))"

section \<open>Classification returns the first task type of the highest count\<close>

lemma starts_with_iff: "starts_with kw s \<longleftrightarrow> (\<exists>b. s = kw @ b)"
  by (induction kw s rule: starts_with.induct) auto

lemma py_in_str_iff: "py_in_str kw s \<longleftrightarrow> (\<exists>a b. s = a @ kw @ b)"
proof (induction s)
  case Nil
  then show ?case by auto
next
  case (Cons c cs)
  show ?case
  proof
    assume "py_in_str kw (c # cs)"
    then consider "starts_with kw (c # cs)" | "py_in_str kw cs" by auto
    then show "\<exists>a b. c # cs = a @ kw @ b"
    proof cases
      case 1
      then obtain b where "c # cs = kw @ b" by (auto simp: starts_with_iff)
      then have "c # cs = [] @ kw @ b" by simp
      then show ?thesis by blast
    next
      case 2
      then obtain a b where "cs = a @ kw @ b" using Cons.IH by auto
      then have "c # cs = (c # a) @ kw @ b" by simp
      then show ?thesis by blast
    qed
  next
    assume "\<exists>a b. c # cs = a @ kw @ b"
    then obtain a b where ab: "c # cs = a @ kw @ b" by auto
    show "py_in_str kw (c # cs)"
    proof (cases a)
      case Nil
      then have "starts_with kw (c # cs)" using ab by (simp add: starts_with_iff)
      then show ?thesis by simp
    next
      case (Cons x a')
      then have "cs = a' @ kw @ b" using ab by simp
      then show ?thesis using Cons.IH by auto
    qed
  qed
qed

lemma keyword_score_spec:
  "distinct keywords \<Longrightarrow> keyword_score keywords text = spec_count keywords text"
  unfolding keyword_score_def spec_count_def
  by (simp add: py_in_str_iff distinct_length_filter Int_def conj_commute)

lemma keyword_score_nonneg: "0 \<le> keyword_score keywords text"
  by (simp add: keyword_score_def)

lemma collect_scores_eq:
  "distinct (map fst table) \<Longrightarrow> set (map fst table) \<inter> set (map fst scores) = {} \<Longrightarrow>
   collect_scores table text scores =
     scores @ filter (\<lambda>p. 0 < snd p) (map (\<lambda>(t, kws). (t, keyword_score kws text)) table)"
proof (induction table arbitrary: scores)
  case Nil
  then show ?case by simp
next
  case (Cons p table)
  obtain t kws where p: "p = (t, kws)" by (cases p)
  have fresh: "t \<notin> set (map fst scores)" using Cons.prems p by auto
  then have upd: "AList.update t v scores = scores @ [(t, v)]" for v
    by (induction scores) auto
  show ?case
  proof (cases "0 < keyword_score kws text")
    case True
    have "set (map fst table) \<inter> set (map fst (scores @ [(t, keyword_score kws text)])) = {}"
      using Cons.prems p by auto
    then show ?thesis
      using Cons.IH[of "scores @ [(t, keyword_score kws text)]"] Cons.prems True p upd
      by (simp add: Let_def)
  next
    case False
    have "set (map fst table) \<inter> set (map fst scores) = {}"
      using Cons.prems by auto
    then show ?thesis
      using Cons.IH[of scores] Cons.prems False p by (simp add: Let_def)
  qed
qed

lemma max_by_key_first:
  "\<exists>pre post. best # xs = pre @ max_by_key key best xs # post
     \<and> (\<forall>x\<in>set pre. key x < key (max_by_key key best xs))
     \<and> (\<forall>x\<in>set post. key x \<le> key (max_by_key key best xs))"
proof (induction xs arbitrary: best)
  case Nil
  have "[best] = [] @ best # []" by simp
  then show ?case by force
next
  case (Cons x xs)
  let ?b = "if key x > key best then x else best"
  obtain pre post where pp: "?b # xs = pre @ max_by_key key ?b xs # post"
    "\<forall>y\<in>set pre. key y < key (max_by_key key ?b xs)"
    "\<forall>y\<in>set post. key y \<le> key (max_by_key key ?b xs)"
    using Cons.IH[of ?b] by blast
  show ?case
  proof (cases pre)
    case Nil
    then have r: "max_by_key key ?b xs = ?b" and post: "post = xs" using pp(1) by auto
    show ?thesis
    proof (cases "key x > key best")
      case True
      then have "best # x # xs = [best] @ max_by_key key best (x # xs) # xs"
        using r by simp
      moreover have "\<forall>y\<in>set [best]. key y < key (max_by_key key best (x # xs))"
        using True r by simp
      moreover have "\<forall>y\<in>set xs. key y \<le> key (max_by_key key best (x # xs))"
        using pp(3) post by simp
      ultimately show ?thesis by blast
    next
      case False
      then have "best # x # xs = [] @ max_by_key key best (x # xs) # (x # xs)"
        using r by simp
      moreover have "\<forall>y\<in>set (x # xs). key y \<le> key (max_by_key key best (x # xs))"
        using pp(3) post False r by auto
      ultimately show ?thesis by force
    qed
  next
    case (Cons p pre')
    then have p: "p = ?b" and xs: "xs = pre' @ max_by_key key ?b xs # post" using pp(1) by auto
    have lt: "key ?b < key (max_by_key key ?b xs)" using pp(2) Cons p by auto
    have "best # x # xs = (best # x # pre') @ max_by_key key best (x # xs) # post"
      using xs by simp
    moreover have "\<forall>y\<in>set (best # x # pre'). key y < key (max_by_key key best (x # xs))"
      using pp(2) Cons lt by (auto split: if_splits)
    moreover have "\<forall>y\<in>set post. key y \<le> key (max_by_key key best (x # xs))"
      using pp(3) by simp
    ultimately show ?thesis by blast
  qed
qed

lemma filter_split:
  "filter P xs = ys @ r # zs \<Longrightarrow>
   \<exists>us vs. xs = us @ r # vs \<and> filter P us = ys \<and> filter P vs = zs \<and> P r"
proof (induction xs arbitrary: ys)
  case Nil
  then show ?case by simp
next
  case (Cons x xs)
  show ?case
  proof (cases "P x")
    case False
    then obtain us vs where "xs = us @ r # vs" "filter P us = ys" "filter P vs = zs" "P r"
      using Cons by force
    then have "x # xs = (x # us) @ r # vs \<and> filter P (x # us) = ys \<and> filter P vs = zs \<and> P r"
      using False by simp
    then show ?thesis by blast
  next
    case True
    show ?thesis
    proof (cases ys)
      case Nil
      then have "x # xs = [] @ r # xs \<and> filter P [] = ys \<and> filter P xs = zs \<and> P r"
        using Cons.prems True by simp
      then show ?thesis by blast
    next
      case (Cons y ys')
      then have "filter P xs = ys' @ r # zs" and xy: "x = y" using Cons.prems True by auto
      then obtain us vs where "xs = us @ r # vs" "filter P us = ys'" "filter P vs = zs" "P r"
        using Cons.IH by blast
      then have "x # xs = (x # us) @ r # vs \<and> filter P (x # us) = ys \<and> filter P vs = zs \<and> P r"
        using True Cons xy by simp
      then show ?thesis by blast
    qed
  qed
qed

lemma first_max_table:
  assumes dec: "filter (\<lambda>p. 0 < snd p) (map (\<lambda>(t, kws). (t, f kws)) table) = pre' @ r # post'"
    and pre: "\<forall>y\<in>set pre'. snd y < snd r"
    and post: "\<forall>y\<in>set post'. snd y \<le> (snd r :: int)"
  shows "\<exists>pre kws post. table = pre @ (fst r, kws) # post \<and> 0 < f kws
           \<and> (\<forall>(t, k)\<in>set pre. f k < f kws) \<and> (\<forall>(t, k)\<in>set post. f k \<le> f kws)"
proof -
  let ?g = "\<lambda>(t, kws). (t, f kws)"
  obtain us vs where uv: "map ?g table = us @ r # vs" "filter (\<lambda>p. 0 < snd p) us = pre'"
    "filter (\<lambda>p. 0 < snd p) vs = post'" "0 < snd r"
    using filter_split[OF dec] by blast
  obtain pre x post where tab: "table = pre @ x # post" "map ?g pre = us" "?g x = r" "map ?g post = vs"
    using uv(1) by (auto simp: map_eq_append_conv map_eq_Cons_conv)
  obtain t kws where x: "x = (t, kws)" by (cases x)
  have r: "fst r = t" "snd r = f kws" using tab(3) x by auto
  have "\<forall>p\<in>set us. snd p < snd r"
  proof
    fix p assume "p \<in> set us"
    show "snd p < snd r"
    proof (cases "0 < snd p")
      case True
      then have "p \<in> set pre'" using uv(2) \<open>p \<in> set us\<close> by auto
      then show ?thesis using pre by blast
    next
      case False
      then show ?thesis using uv(4) by simp
    qed
  qed
  then have a: "\<forall>(t, k)\<in>set pre. f k < f kws"
    using tab(2) r by force
  have "\<forall>p\<in>set vs. snd p \<le> snd r"
  proof
    fix p assume "p \<in> set vs"
    show "snd p \<le> snd r"
    proof (cases "0 < snd p")
      case True
      then have "p \<in> set post'" using uv(3) \<open>p \<in> set vs\<close> by auto
      then show ?thesis using post by blast
    next
      case False
      then show ?thesis using uv(4) by simp
    qed
  qed
  then have b: "\<forall>(t, k)\<in>set post. f k \<le> f kws"
    using tab(4) r by force
  show ?thesis using tab(1) x r uv(4) a b by auto
qed

lemma TASK_PATTERNS_distinct: "distinct (map fst TASK_PATTERNS)"
  by (simp add: TASK_PATTERNS_def)

lemma TASK_PATTERNS_keywords_distinct: "\<forall>(t, kws)\<in>set TASK_PATTERNS. distinct kws"
  by (simp add: TASK_PATTERNS_def)

text \<open>
  Claim C2.  For every text, \<^verbatim>\<open>classify_task\<close> returns a value and raises nothing.  With the
  count of a task type being the number of its keywords that occur in the lower-cased text as
  substrings (a keyword counts once), the result is either the first entry of the keyword
  table, in its fixed order, whose count is the highest, that count being positive (every entry
  before it has a strictly smaller count, every entry after it has none greater), or all counts
  are zero and the result is the fallback \<^verbatim>\<open>generation\<close>.
\<close>

theorem classify_task_spec:
  "(\<exists>pre kws post. TASK_PATTERNS = pre @ (classify_task text, kws) # post
      \<and> 0 < spec_count kws (lower text)
      \<and> (\<forall>(t, k)\<in>set pre. spec_count k (lower text) < spec_count kws (lower text))
      \<and> (\<forall>(t, k)\<in>set post. spec_count k (lower text) \<le> spec_count kws (lower text)))
   \<or> ((\<forall>(t, k)\<in>set TASK_PATTERNS. spec_count k (lower text) = 0)
      \<and> classify_task text = ''generation'')"
proof -
  let ?f = "\<lambda>kws. keyword_score kws (lower text)"
  let ?all = "map (\<lambda>(t, kws). (t, ?f kws)) TASK_PATTERNS"
  let ?scores = "filter (\<lambda>p. 0 < snd p) ?all"
  have cs: "collect_scores TASK_PATTERNS (lower text) [] = ?scores"
    using collect_scores_eq[OF TASK_PATTERNS_distinct, of "[]" "lower text"] by simp
  have eq: "\<forall>(t, kws)\<in>set TASK_PATTERNS. ?f kws = spec_count kws (lower text)"
    using TASK_PATTERNS_keywords_distinct keyword_score_spec by fastforce
  show ?thesis
  proof (cases ?scores)
    case Nil
    then have "classify_task text = ''generation''"
      using cs by (simp add: classify_task_def)
    moreover have "\<forall>p\<in>set ?all. \<not> 0 < snd p"
      using Nil by (simp add: filter_empty_conv)
    then have "\<forall>(t, kws)\<in>set TASK_PATTERNS. ?f kws = 0"
      using keyword_score_nonneg[of _ "lower text"] by (fastforce simp: order.order_iff_strict)
    then have "\<forall>(t, kws)\<in>set TASK_PATTERNS. spec_count kws (lower text) = 0"
      using eq by fastforce
    ultimately show ?thesis by blast
  next
    case (Cons first others)
    let ?r = "max_by_key snd first others"
    have cl: "classify_task text = fst ?r"
      using cs Cons by (simp add: classify_task_def)
    obtain pre' post' where d: "first # others = pre' @ ?r # post'"
      "\<forall>x\<in>set pre'. snd x < snd ?r" "\<forall>x\<in>set post'. snd x \<le> snd ?r"
      using max_by_key_first[of first others snd] by blast
    have "?scores = pre' @ ?r # post'" using Cons d(1) by simp
    from first_max_table[of ?f TASK_PATTERNS pre' ?r post', OF this d(2) d(3)]
    obtain pre kws post where t: "TASK_PATTERNS = pre @ (fst ?r, kws) # post" "0 < ?f kws"
      "\<forall>(t, k)\<in>set pre. ?f k < ?f kws" "\<forall>(t, k)\<in>set post. ?f k \<le> ?f kws"
      by blast
    have sets: "set TASK_PATTERNS = set pre \<union> {(fst ?r, kws)} \<union> set post"
      by (subst t(1)) auto
    have e1: "?f kws = spec_count kws (lower text)"
      using eq unfolding sets by blast
    have e2: "\<forall>(t, k)\<in>set pre. ?f k = spec_count k (lower text)"
      using eq unfolding sets by blast
    have e3: "\<forall>(t, k)\<in>set post. ?f k = spec_count k (lower text)"
      using eq unfolding sets by blast
    have "TASK_PATTERNS = pre @ (classify_task text, kws) # post
      \<and> 0 < spec_count kws (lower text)
      \<and> (\<forall>(t, k)\<in>set pre. spec_count k (lower text) < spec_count kws (lower text))
      \<and> (\<forall>(t, k)\<in>set post. spec_count k (lower text) \<le> spec_count kws (lower text))"
      using t e1 e2 e3 cl by fastforce
    then show ?thesis by blast
  qed
qed

theorem classify_task_spec_witness:
  "classify_task ''Fix the login BUG'' = ''debugging''
   \<and> (\<exists>pre kws post. TASK_PATTERNS = pre @ (''debugging'', kws) # post
      \<and> 0 < spec_count kws ''fix the login bug''
      \<and> (\<forall>(t, k)\<in>set pre. spec_count k ''fix the login bug'' < spec_count kws ''fix the login bug'')
      \<and> (\<forall>(t, k)\<in>set post. spec_count k ''fix the login bug'' \<le> spec_count kws ''fix the login bug''))"
proof -
  have c: "classify_task ''Fix the login BUG'' = ''debugging''"
    by code_simp
  have l: "lower ''Fix the login BUG'' = ''fix the login bug''"
    by code_simp
  show ?thesis
    using classify_task_spec [of "''Fix the login BUG''"] unfolding c l by simp
qed

text \<open>The scenarios of the specification, and the empty text.\<close>

lemma classify_examples:
  "classify_task '''' = ''generation''"
  "classify_task ''generate a new component'' = ''generation''"
  "classify_task ''lorem ipsum'' = ''generation''"
  by code_simp+

section \<open>The learning rate schedule\<close>

lemma spec_rate_floor: "500 \<le> n \<Longrightarrow> spec_rate n = 0.05"
  unfolding spec_rate_def by (simp add: max_def field_simps)

lemma spec_rate_antimono: "m \<le> n \<Longrightarrow> spec_rate n \<le> spec_rate m"
  unfolding spec_rate_def
  by (intro max.mono order_refl divide_left_mono) (auto simp: add_pos_nonneg)

lemma spec_rate_limit: "spec_rate \<longlonglongrightarrow> 0.05"
proof -
  have "eventually (\<lambda>n. spec_rate n = 0.05) sequentially"
    using spec_rate_floor by (auto simp: eventually_sequentially)
  then show ?thesis by (simp add: tendsto_eventually)
qed

text \<open>
  Claim C3.  For an observation count \<open>n\<close> the update computes the learning rate
  \<open>max(0.05, 0.3 / (1 + n * 0.01))\<close> and raises nothing; the rate never increases when the
  count grows, is never below \<open>0.05\<close>, is \<open>0.3\<close> at count 0 and \<open>0.15\<close> at count 100, and
  tends to \<open>0.05\<close> as the count grows without bound.
\<close>

theorem learning_rate_schedule:
  "learning_rate (PInt (int n)) = Inr (spec_rate n)
   \<and> (m \<le> n \<longrightarrow> spec_rate n \<le> spec_rate m)
   \<and> 0.05 \<le> spec_rate n
   \<and> spec_rate 0 = 0.3
   \<and> spec_rate 100 = 0.15
   \<and> spec_rate \<longlonglongrightarrow> 0.05"
proof -
  have "learning_rate (PInt (int n)) = Inr (spec_rate n)"
    by (simp add: learning_rate_def py_operand_def spec_rate_def add_nonneg_eq_0_iff)
  moreover have "0.05 \<le> spec_rate n" "spec_rate 0 = 0.3" "spec_rate 100 = 0.15"
    by (simp_all add: spec_rate_def)
  ultimately show ?thesis
    using spec_rate_antimono spec_rate_limit by blast
qed

theorem learning_rate_schedule_witness:
  "learning_rate (PInt 250) = Inr (6 / 70) \<and> spec_rate 250 \<le> spec_rate 100"
proof -
  have "spec_rate 250 = 6 / 70"
    by (simp add: spec_rate_def)
  then show ?thesis
    using learning_rate_schedule [where n = 250 and m = 100] by simp
qed

lemma key_of_map_of: "map_of kvs k = Some v \<Longrightarrow> k \<in> fst ` set kvs"
  by (auto dest: map_of_SomeD intro: rev_image_eqI)

section \<open>One iteration of the update loop\<close>

lemma on_ok_Inr_iff: "on_ok x f = Inr y \<longleftrightarrow> (\<exists>a. x = Inr a \<and> f a = Inr y)"
  by (cases x) auto

lemma py_getitem_Inr: "py_getitem x k = Inr y \<longleftrightarrow> (\<exists>kvs. x = PDict kvs \<and> map_of kvs k = Some y)"
  by (cases x) (auto split: option.splits)

lemma py_get_Inr:
  "py_get x k d = Inr y \<longleftrightarrow>
     (\<exists>kvs. x = PDict kvs \<and> y = (case map_of kvs k of None \<Rightarrow> d | Some v \<Rightarrow> v))"
  by (cases x) (auto split: option.splits)

lemma py_setitem_Inr:
  "py_setitem x k v = Inr y \<longleftrightarrow> (\<exists>kvs. x = PDict kvs \<and> y = PDict (AList.update k v kvs))"
  by (cases x) auto

lemma py_operand_Inr: "py_operand x = Inr c \<longleftrightarrow> py_num x = Some c"
  by (auto simp: py_operand_def split: option.splits)

lemma update_pair_cases:
  assumes "update_pair t d r M (m, v) = Inr M'"
  shows "M' = M \<or>
    (\<exists>ms vs ss c. M = PDict ms \<and> map_of ms m = Some (PDict vs) \<and> map_of vs v = Some (PDict ss)
       \<and> py_num (case map_of ss t of None \<Rightarrow> default_score | Some x \<Rightarrow> x) = Some c
       \<and> M' = PDict (AList.update m (PDict (AList.update v
                 (PDict (AList.update t (PFloat (stored_score c d r)) ss)) vs)) ms))"
  using assms
  by (auto simp: update_pair_def on_ok_Inr_iff py_getitem_Inr py_get_Inr py_setitem_Inr
      py_operand_Inr split: if_splits)

lemma update_pair_unfold:
  assumes "map_of ms m0 = Some (PDict vs)" "map_of vs v0 = Some x"
  shows "update_pair t d r (PDict ms) (m0, v0) =
      on_ok (py_get x t default_score) (\<lambda>current.
      on_ok (py_operand current) (\<lambda>c.
      on_ok (py_setitem x t (PFloat (stored_score c d r))) (\<lambda>scores'.
        Inr (PDict (AList.update m0 (PDict (AList.update v0 scores' vs)) ms)))))"
  using assms key_of_map_of[OF assms(1)] key_of_map_of[OF assms(2)]
  by (simp add: update_pair_def)




section \<open>The update loop\<close>

lemma for_each_invariant:
  assumes "P s" and "\<And>s x s'. P s \<Longrightarrow> x \<in> set xs \<Longrightarrow> body s x = Inr s' \<Longrightarrow> P s'"
  shows "P (snd (for_each body xs s))"
  using assms
proof (induction xs arbitrary: s)
  case Nil
  then show ?case by simp
next
  case (Cons x xs)
  have step: "\<And>s y s'. P s \<Longrightarrow> y \<in> set xs \<Longrightarrow> body s y = Inr s' \<Longrightarrow> P s'"
  proof -
    fix s y s'
    assume a: "P s" "y \<in> set xs" "body s y = Inr s'"
    have "y \<in> set (x # xs)" using a(2) by simp
    with a(1) show "P s'" using a(3) by (rule Cons.prems(2))
  qed
  show ?case
  proof (cases "body s x")
    case (Inl e)
    have "for_each body (x # xs) s = (Some e, s)" using Inl by simp
    then show ?thesis using Cons.prems(1) by (simp only: snd_conv)
  next
    case (Inr s')
    have "x \<in> set (x # xs)" by simp
    with Cons.prems(1) have "P s'" using Inr by (rule Cons.prems(2))
    then have "P (snd (for_each body xs s'))"
      using step by (rule Cons.IH)
    moreover have "for_each body (x # xs) s = for_each body xs s'" using Inr by simp
    ultimately show ?thesis by (simp only:)
  qed
qed

lemma scores_at_Some:
  "scores_at M m v = Some x \<longleftrightarrow>
     (\<exists>ms vs. M = PDict ms \<and> map_of ms m = Some (PDict vs) \<and> map_of vs v = Some x)"
proof (cases M)
  case (PDict ms)
  show ?thesis
  proof (cases "map_of ms m")
    case None
    then show ?thesis using PDict by (simp add: scores_at_def)
  next
    case (Some vv)
    then show ?thesis using PDict by (cases vv) (simp_all add: scores_at_def)
  qed
qed (simp_all add: scores_at_def)

lemma update_pair_result:
  assumes "update_pair t d r M (m0, v0) = Inr M'"
  obtains (same) "M' = M" "scores_at M m0 v0 = None"
  | (changed) ms vs ss c where "M = PDict ms" "map_of ms m0 = Some (PDict vs)"
        "map_of vs v0 = Some (PDict ss)"
        "py_num (case map_of ss t of None \<Rightarrow> default_score | Some x \<Rightarrow> x) = Some c"
        "M' = PDict (AList.update m0 (PDict (AList.update v0
                 (PDict (AList.update t (PFloat (stored_score c d r)) ss)) vs)) ms)"
proof (cases "scores_at M m0 v0")
  case None
  then have "M' = M"
    using update_pair_cases[OF assms] by (auto simp: scores_at_def)
  then show ?thesis using None same by simp
next
  case (Some x)
  then obtain ms vs where M: "M = PDict ms" "map_of ms m0 = Some (PDict vs)" "map_of vs v0 = Some x"
    by (auto simp: scores_at_Some)
  have u: "on_ok (py_get x t default_score) (\<lambda>current.
      on_ok (py_operand current) (\<lambda>c.
      on_ok (py_setitem x t (PFloat (stored_score c d r))) (\<lambda>scores'.
        Inr (PDict (AList.update m0 (PDict (AList.update v0 scores' vs)) ms))))) = Inr M'"
    using assms update_pair_unfold[OF M(2,3)] M(1) by simp
  then obtain ss where x: "x = PDict ss"
    by (cases x) simp_all
  let ?cur = "case map_of ss t of None \<Rightarrow> default_score | Some x \<Rightarrow> x"
  have g: "py_get x t default_score = Inr ?cur"
    using x by (simp split: option.splits)
  then obtain c where c: "py_num ?cur = Some c"
    using u by (cases "py_num ?cur") (simp_all add: py_operand_def)
  have "M' = PDict (AList.update m0 (PDict (AList.update v0
                 (PDict (AList.update t (PFloat (stored_score c d r)) ss)) vs)) ms)"
    using u g c x by (simp add: py_operand_def)
  with x c have "x = PDict ss"
    "py_num (case map_of ss t of None \<Rightarrow> default_score | Some x \<Rightarrow> x) = Some c"
    "M' = PDict (AList.update m0 (PDict (AList.update v0
                 (PDict (AList.update t (PFloat (stored_score c d r)) ss)) vs)) ms)"
    by simp_all
  then show ?thesis using changed M by simp
qed

lemma update_keys_known: "map_of kvs k = Some y \<Longrightarrow> map fst (AList.update k v kvs) = map fst kvs"
  using key_of_map_of[of kvs k y] by (simp add: update_keys)

lemma update_pair_effect:
  assumes "update_pair t d r M (m0, v0) = Inr M'"
  shows "py_keys M' = py_keys M"
    and "map_option py_keys (py_lookup M' m) = map_option py_keys (py_lookup M m)"
    and "m \<noteq> m0 \<Longrightarrow> py_lookup M' m = py_lookup M m"
    and "(m, v) \<noteq> (m0, v0) \<Longrightarrow> scores_at M' m v = scores_at M m v"
    and "(m, v, t') \<noteq> (m0, v0, t) \<Longrightarrow> score_at M' m v t' = score_at M m v t'"
    and "score_at M m v t' \<noteq> None \<Longrightarrow> score_at M' m v t' \<noteq> None"
    and "scores_at M' m v = None \<longleftrightarrow> scores_at M m v = None"
    and "scores_at M m0 v0 = None \<Longrightarrow> M' = M"
    and "scores_at M m0 v0 \<noteq> None \<Longrightarrow>
           \<exists>c. get_score M m0 v0 t = Some c \<and> score_at M' m0 v0 t = Some (PFloat (stored_score c d r))"
proof -
  note obs = scores_at_def score_at_def get_score_def update_conv' update_keys_known
  show "py_keys M' = py_keys M"
    using assms by (cases rule: update_pair_result) (simp_all add: obs)
  show "map_option py_keys (py_lookup M' m) = map_option py_keys (py_lookup M m)"
    using assms by (cases rule: update_pair_result) (simp_all add: obs)
  show "m \<noteq> m0 \<Longrightarrow> py_lookup M' m = py_lookup M m"
    using assms by (cases rule: update_pair_result) (simp_all add: obs)
  show "(m, v) \<noteq> (m0, v0) \<Longrightarrow> scores_at M' m v = scores_at M m v"
    using assms by (cases rule: update_pair_result) (auto simp: obs)
  show "(m, v, t') \<noteq> (m0, v0, t) \<Longrightarrow> score_at M' m v t' = score_at M m v t'"
    using assms by (cases rule: update_pair_result) (auto simp: obs)
  show "score_at M m v t' \<noteq> None \<Longrightarrow> score_at M' m v t' \<noteq> None"
    using assms by (cases rule: update_pair_result) (auto simp: obs)
  show "scores_at M' m v = None \<longleftrightarrow> scores_at M m v = None"
    using assms by (cases rule: update_pair_result) (auto simp: obs)
  show "scores_at M m0 v0 = None \<Longrightarrow> M' = M"
    using assms by (cases rule: update_pair_result) (simp_all add: obs)
  show "scores_at M m0 v0 \<noteq> None \<Longrightarrow>
           \<exists>c. get_score M m0 v0 t = Some c \<and> score_at M' m0 v0 t = Some (PFloat (stored_score c d r))"
    using assms by (cases rule: update_pair_result) (auto simp: obs split: option.splits)
qed

lemma update_loop_frame:
  fixes t d r mods M
  defines "M' \<equiv> snd (for_each (update_pair t d r) mods M)"
  shows "py_keys M' = py_keys M"
    and "map_option py_keys (py_lookup M' m) = map_option py_keys (py_lookup M m)"
    and "m \<notin> fst ` set mods \<Longrightarrow> py_lookup M' m = py_lookup M m"
    and "(m, v) \<notin> set mods \<Longrightarrow> scores_at M' m v = scores_at M m v"
    and "t' \<noteq> t \<or> (m, v) \<notin> set mods \<Longrightarrow> score_at M' m v t' = score_at M m v t'"
    and "score_at M m v t' \<noteq> None \<Longrightarrow> score_at M' m v t' \<noteq> None"
    and "scores_at M' m v = None \<longleftrightarrow> scores_at M m v = None"
proof -
  let ?body = "update_pair t d r"
  show "py_keys M' = py_keys M"
    unfolding M'_def
    by (rule for_each_invariant[where P = "\<lambda>X. py_keys X = py_keys M"])
       (auto dest: update_pair_effect(1))
  show "map_option py_keys (py_lookup M' m) = map_option py_keys (py_lookup M m)"
    unfolding M'_def
    by (rule for_each_invariant
          [where P = "\<lambda>X. map_option py_keys (py_lookup X m) = map_option py_keys (py_lookup M m)"])
       (auto dest: update_pair_effect(2)[where m = m])
  show "py_lookup M' m = py_lookup M m" if "m \<notin> fst ` set mods"
    unfolding M'_def
  proof (rule for_each_invariant[where P = "\<lambda>X. py_lookup X m = py_lookup M m"])
    fix s x s'
    assume a: "py_lookup s m = py_lookup M m" "x \<in> set mods" "?body s x = Inr s'"
    obtain m0 v0 where x: "x = (m0, v0)" by (cases x)
    have "m \<noteq> m0" using that a(2) x by force
    then show "py_lookup s' m = py_lookup M m"
      using update_pair_effect(3)[of t d r s m0 v0 s' m] a x by simp
  qed simp
  show "scores_at M' m v = scores_at M m v" if "(m, v) \<notin> set mods"
    unfolding M'_def
  proof (rule for_each_invariant[where P = "\<lambda>X. scores_at X m v = scores_at M m v"])
    fix s x s'
    assume a: "scores_at s m v = scores_at M m v" "x \<in> set mods" "?body s x = Inr s'"
    obtain m0 v0 where x: "x = (m0, v0)" by (cases x)
    have "(m, v) \<noteq> (m0, v0)" using that a(2) x by force
    then show "scores_at s' m v = scores_at M m v"
      using update_pair_effect(4)[of t d r s m0 v0 s' m v] a x by simp
  qed simp
  show "score_at M' m v t' = score_at M m v t'" if "t' \<noteq> t \<or> (m, v) \<notin> set mods"
    unfolding M'_def
  proof (rule for_each_invariant[where P = "\<lambda>X. score_at X m v t' = score_at M m v t'"])
    fix s x s'
    assume a: "score_at s m v t' = score_at M m v t'" "x \<in> set mods" "?body s x = Inr s'"
    obtain m0 v0 where x: "x = (m0, v0)" by (cases x)
    have "(m, v, t') \<noteq> (m0, v0, t)" using that a(2) x by force
    then show "score_at s' m v t' = score_at M m v t'"
      using update_pair_effect(5)[of t d r s m0 v0 s' m v t'] a x by simp
  qed simp
  show "score_at M' m v t' \<noteq> None" if "score_at M m v t' \<noteq> None"
    unfolding M'_def
  proof (rule for_each_invariant[where P = "\<lambda>X. score_at X m v t' \<noteq> None"])
    fix s x s'
    assume a: "score_at s m v t' \<noteq> None" "x \<in> set mods" "?body s x = Inr s'"
    obtain m0 v0 where x: "x = (m0, v0)" by (cases x)
    show "score_at s' m v t' \<noteq> None"
      using update_pair_effect(6)[of t d r s m0 v0 s' m v t'] a x by simp
  qed (rule that)
  show "scores_at M' m v = None \<longleftrightarrow> scores_at M m v = None"
    unfolding M'_def
  proof (rule for_each_invariant[where P = "\<lambda>X. scores_at X m v = None \<longleftrightarrow> scores_at M m v = None"])
    fix s x s'
    assume a: "scores_at s m v = None \<longleftrightarrow> scores_at M m v = None" "x \<in> set mods" "?body s x = Inr s'"
    obtain m0 v0 where x: "x = (m0, v0)" by (cases x)
    show "scores_at s' m v = None \<longleftrightarrow> scores_at M m v = None"
      using update_pair_effect(7)[of t d r s m0 v0 s' m v] a x by simp
  qed simp
qed

section \<open>The update and the world\<close>

lemma update_affinity_unfold:
  assumes "load_affinity_matrix w = PDict kvs" "map_of kvs ''matrix'' = Some M"
    and "learning_rate (case map_of kvs ''observations'' of None \<Rightarrow> PInt 0 | Some x \<Rightarrow> x) = Inr r"
    and "for_each (update_pair t d r) mods M = (raised, M')"
  shows "update_affinity skill t mods d now w =
    (case raised of
       Some e \<Rightarrow> (Some e, aliased w M')
     | None \<Rightarrow>
        (case py_add_one (case map_of kvs ''observations'' of None \<Rightarrow> PInt 0 | Some x \<Rightarrow> x) of
           Inl e \<Rightarrow> (Some e, aliased w M')
         | Inr counted \<Rightarrow>
            (None, (aliased w M')\<lparr>affinity_file :=
               Parsed (PDict (AList.update ''last_updated'' (PStr now)
                 (AList.update ''observations'' counted
                   (AList.update ''matrix'' M' kvs))))\<rparr>)))"
  using assms
  by (simp add: update_affinity_def aliased_def save_affinity_matrix_def
      split: option.splits sum.splits)

lemma learning_rate_add_one:
  "learning_rate obs = Inr r \<Longrightarrow>
     \<exists>n counted. py_num obs = Some n \<and> py_add_one obs = Inr counted \<and> py_num counted = Some (n + 1)"
  by (cases obs) (auto simp: learning_rate_def py_operand_def)

lemma update_affinity_cases:
  obtains (early) e where "update_affinity skill t mods d now w = (Some e, w)"
  | (raised) kvs M r e M' where "load_affinity_matrix w = PDict kvs" "map_of kvs ''matrix'' = Some M"
      "learning_rate (case map_of kvs ''observations'' of None \<Rightarrow> PInt 0 | Some x \<Rightarrow> x) = Inr r"
      "for_each (update_pair t d r) mods M = (Some e, M')"
      "update_affinity skill t mods d now w = (Some e, aliased w M')"
  | (saved) kvs M r M' n counted where "load_affinity_matrix w = PDict kvs" "map_of kvs ''matrix'' = Some M"
      "learning_rate (case map_of kvs ''observations'' of None \<Rightarrow> PInt 0 | Some x \<Rightarrow> x) = Inr r"
      "for_each (update_pair t d r) mods M = (None, M')"
      "py_num (case map_of kvs ''observations'' of None \<Rightarrow> PInt 0 | Some x \<Rightarrow> x) = Some n"
      "py_num counted = Some (n + 1)"
      "update_affinity skill t mods d now w =
         (None, (aliased w M')\<lparr>affinity_file :=
               Parsed (PDict (AList.update ''last_updated'' (PStr now)
                 (AList.update ''observations'' counted
                   (AList.update ''matrix'' M' kvs))))\<rparr>)"
proof (cases "py_getitem (load_affinity_matrix w) ''matrix''")
  case (Inl e)
  then have "update_affinity skill t mods d now w = (Some e, w)"
    by (simp add: update_affinity_def)
  then show ?thesis by (rule early)
next
  case (Inr M)
  then obtain kvs where k: "load_affinity_matrix w = PDict kvs" "map_of kvs ''matrix'' = Some M"
    by (auto simp: py_getitem_Inr)
  let ?obs = "case map_of kvs ''observations'' of None \<Rightarrow> PInt 0 | Some x \<Rightarrow> x"
  have g: "py_get (load_affinity_matrix w) ''observations'' (PInt 0) = Inr ?obs"
    using k by (simp split: option.splits)
  show ?thesis
  proof (cases "learning_rate ?obs")
    case (Inl e)
    then have "update_affinity skill t mods d now w = (Some e, w)"
      using Inr g by (simp add: update_affinity_def)
    then show ?thesis by (rule early)
  next
    case r: (Inr r)
    obtain res M' where f: "for_each (update_pair t d r) mods M = (res, M')"
      by (cases "for_each (update_pair t d r) mods M")
    note u = update_affinity_unfold[OF k r f, of skill now]
    show ?thesis
    proof (cases res)
      case (Some e)
      then show ?thesis using raised[OF k r _ ] f u by simp
    next
      case None
      obtain n counted where c: "py_num ?obs = Some n" "py_add_one ?obs = Inr counted"
        "py_num counted = Some (n + 1)"
        using learning_rate_add_one[OF r] by blast
      show ?thesis using saved[OF k r _ c(1) c(3)] f u None c(2) by simp
    qed
  qed
qed

lemma stored_matrix_of_load:
  "load_affinity_matrix w = PDict kvs \<Longrightarrow> map_of kvs ''matrix'' = Some M \<Longrightarrow> stored_matrix w = M"
  by (simp add: stored_matrix_def)

lemma observations_of_load:
  "load_affinity_matrix w = PDict kvs \<Longrightarrow>
   observations_of w = py_num (case map_of kvs ''observations'' of None \<Rightarrow> PInt 0 | Some x \<Rightarrow> x)"
  by (simp add: observations_of_def split: option.splits)

lemma aliased_observed:
  assumes "load_affinity_matrix w = PDict kvs" "map_of kvs ''matrix'' = Some M"
  shows "observations_of (aliased w M') = observations_of w"
    and "stored_matrix (aliased w M') = stored_matrix w \<or> stored_matrix (aliased w M') = M'"
    and "default_affinity (aliased w M') = default_affinity w \<or> default_affinity (aliased w M') = M'"
    and "affinity_file (aliased w M') = affinity_file w"
  by (cases "affinity_file w";
      simp add: aliased_def observations_of_def stored_matrix_def load_affinity_matrix_def)+

lemma saved_observed:
  "stored_matrix (w0\<lparr>affinity_file :=
               Parsed (PDict (AList.update ''last_updated'' (PStr now)
                 (AList.update ''observations'' counted
                   (AList.update ''matrix'' M' kvs))))\<rparr>) = M'"
  "observations_of (w0\<lparr>affinity_file :=
               Parsed (PDict (AList.update ''last_updated'' (PStr now)
                 (AList.update ''observations'' counted
                   (AList.update ''matrix'' M' kvs))))\<rparr>) = py_num counted"
  "default_affinity (w0\<lparr>affinity_file :=
               Parsed (PDict (AList.update ''last_updated'' (PStr now)
                 (AList.update ''observations'' counted
                   (AList.update ''matrix'' M' kvs))))\<rparr>) = default_affinity w0"
  by (simp_all add: stored_matrix_def observations_of_def load_affinity_matrix_def update_conv')

text \<open>What every call of the update does to the observations of the world.\<close>

lemma update_affinity_observed:
  fixes skill t mods d now w
  defines "res \<equiv> update_affinity skill t mods d now w"
  obtains (unchanged) e where "fst res = Some e" "snd res = w"
  | (raised) e r where "fst res = Some e"
      "fst (for_each (update_pair t d r) mods (stored_matrix w)) = Some e"
      "stored_matrix (snd res) = stored_matrix w
         \<or> stored_matrix (snd res) = snd (for_each (update_pair t d r) mods (stored_matrix w))"
      "default_affinity (snd res) = default_affinity w
         \<or> default_affinity (snd res) = snd (for_each (update_pair t d r) mods (stored_matrix w))"
      "observations_of (snd res) = observations_of w"
      "affinity_file (snd res) = affinity_file w"
  | (saved) r n where "fst res = None"
      "fst (for_each (update_pair t d r) mods (stored_matrix w)) = None"
      "stored_matrix (snd res) = snd (for_each (update_pair t d r) mods (stored_matrix w))"
      "default_affinity (snd res) = default_affinity w
         \<or> default_affinity (snd res) = snd (for_each (update_pair t d r) mods (stored_matrix w))"
      "observations_of w = Some n" "observations_of (snd res) = Some (n + 1)"
proof (cases rule: update_affinity_cases[of skill t mods d now w])
  case (early e)
  then show ?thesis using unchanged by (simp add: res_def)
next
  case (raised kvs M r e M')
  note sm = stored_matrix_of_load[OF raised(1,2)]
  show ?thesis
    using raised(4,5) aliased_observed[OF raised(1,2), of M'] sm
    by (intro that(2)[of e r]) (simp_all add: res_def)
next
  case (saved kvs M r M' n counted)
  note sm = stored_matrix_of_load[OF saved(1,2)]
  note ob = observations_of_load[OF saved(1)]
  show ?thesis
    using saved(4,5,6,7) aliased_observed(3)[OF saved(1,2), of M'] sm ob
    by (intro that(3)[of r n]) (simp_all add: res_def saved_observed)
qed

lemma update_affinity_counts:
  fixes skill t mods d now w
  defines "res \<equiv> update_affinity skill t mods d now w"
  shows "fst res = None \<Longrightarrow>
           \<exists>n. observations_of w = Some n \<and> observations_of (snd res) = Some (n + 1)"
    and "fst res \<noteq> None \<Longrightarrow> observations_of (snd res) = observations_of w"
  unfolding res_def
  by (cases rule: update_affinity_observed[of skill t mods d now w]; simp)+

lemma run_counts:
  "observations_of w = Some n \<Longrightarrow>
   observations_of (run ops w) = Some (n + real (successes ops w))"
proof (induction ops arbitrary: w n)
  case Nil
  then show ?case by (simp add: run_def)
next
  case (Cons op ops)
  have r: "run (op # ops) w = run ops (perform op w)" by (simp add: run_def)
  show ?case
  proof (cases op)
    case (Update skill t mods d now)
    let ?res = "update_affinity skill t mods d now w"
    show ?thesis
    proof (cases "fst ?res = None")
      case True
      then have "observations_of (snd ?res) = Some (n + 1)"
        using update_affinity_counts(1)[of skill t mods d now w] Cons.prems by auto
      then have "observations_of (run ops (snd ?res)) = Some (n + 1 + real (successes ops (snd ?res)))"
        by (rule Cons.IH)
      then show ?thesis using True Update r by simp
    next
      case False
      then have "observations_of (snd ?res) = Some n"
        using update_affinity_counts(2)[of skill t mods d now w] Cons.prems by auto
      then have "observations_of (run ops (snd ?res)) = Some (n + real (successes ops (snd ?res)))"
        by (rule Cons.IH)
      then show ?thesis using False Update r by simp
    qed
  qed (use Cons r in simp_all)
qed

text \<open>
  Claim C9.  An update that ends without an exception finds the observation counter a number
  and leaves it greater by exactly 1, whatever the pairs in \<^verbatim>\<open>modules\<close> and however many,
  none included; an update that raises leaves the counter as it was.  So after a run the
  counter is its start value plus the number of updates that succeeded, and it never
  decreases as a run goes on.
\<close>

theorem observations_counter:
  "(fst (update_affinity skill t mods d now w) = None \<longrightarrow>
      (\<exists>n. observations_of w = Some n
         \<and> observations_of (snd (update_affinity skill t mods d now w)) = Some (n + 1)))
   \<and> (fst (update_affinity skill t mods d now w) \<noteq> None \<longrightarrow>
        observations_of (snd (update_affinity skill t mods d now w)) = observations_of w)
   \<and> (observations_of w = Some n \<longrightarrow>
        observations_of (run ops w) = Some (n + real (successes ops w))
        \<and> (\<exists>k k'. observations_of (run ops w) = Some k
              \<and> observations_of (run (ops @ later) w) = Some k' \<and> n \<le> k \<and> k \<le> k'))"
proof -
  have "observations_of (run (ops @ later) w) = Some (n + real (successes ops w) + real (successes later (run ops w)))"
    if "observations_of w = Some n"
  proof -
    have "run (ops @ later) w = run later (run ops w)" by (simp add: run_def)
    then show ?thesis using run_counts[OF run_counts[OF that, of ops], of later] by simp
  qed
  then show ?thesis
    using update_affinity_counts[of skill t mods d now w] run_counts[of w n ops] by auto
qed

theorem observations_counter_witness:
  "observations_of (snd (update_affinity ''brainstorm'' ''testing'' [] 0.05 ''t1'' initial_world))
     = Some 1
   \<and> observations_of
        (run [Update ''brainstorm'' ''testing'' [(''research'', ''v1''), (''nope'', ''v1'')] 0.05 ''t1'',
              Load,
              Update ''debugger'' ''review'' [] (- 0.02) ''t2''] initial_world)
     = Some 2"
proof -
  have a: "fst (update_affinity ''brainstorm'' ''testing'' [] 0.05 ''t1'' initial_world) = None"
    by code_simp
  have b: "observations_of initial_world = Some 0"
    by code_simp
  have c: "successes
        [Update ''brainstorm'' ''testing'' [(''research'', ''v1''), (''nope'', ''v1'')] 0.05 ''t1'',
         Load,
         Update ''debugger'' ''review'' [] (- 0.02) ''t2''] initial_world = 2"
    by code_simp
  show ?thesis
    using observations_counter
      [of "''brainstorm''" "''testing''" "[]" "0.05" "''t1''" initial_world 0
          "[Update ''brainstorm'' ''testing'' [(''research'', ''v1''), (''nope'', ''v1'')] 0.05 ''t1'',
            Load,
            Update ''debugger'' ''review'' [] (- 0.02) ''t2'']" "[]"]
      a b c
    by simp
qed

text \<open>
  Claim C8.  Between the matrix before an update and the matrix after it: the module types and
  their order are the same; under every module type the variants are the same; a module type
  that \<^verbatim>\<open>modules\<close> does not name keeps its value; a pair that \<^verbatim>\<open>modules\<close> does not list
  keeps its dictionary of scores; every entry for another task type, or under a pair not
  listed, is the same; and no entry disappears.
\<close>

theorem update_affinity_frame:
  fixes skill t mods d now w
  defines "M \<equiv> stored_matrix w"
    and "M' \<equiv> stored_matrix (snd (update_affinity skill t mods d now w))"
  shows "py_keys M' = py_keys M
    \<and> (\<forall>m. map_option py_keys (py_lookup M' m) = map_option py_keys (py_lookup M m))
    \<and> (\<forall>m. m \<notin> fst ` set mods \<longrightarrow> py_lookup M' m = py_lookup M m)
    \<and> (\<forall>m v. (m, v) \<notin> set mods \<longrightarrow> scores_at M' m v = scores_at M m v)
    \<and> (\<forall>m v t'. t' \<noteq> t \<or> (m, v) \<notin> set mods \<longrightarrow> score_at M' m v t' = score_at M m v t')
    \<and> (\<forall>m v t'. score_at M m v t' \<noteq> None \<longrightarrow> score_at M' m v t' \<noteq> None)"
proof -
  have "M' = M \<or> (\<exists>r. M' = snd (for_each (update_pair t d r) mods M))"
    unfolding M_def M'_def
    by (cases rule: update_affinity_observed[of skill t mods d now w]) auto
  then show ?thesis
  proof
    assume "M' = M"
    then show ?thesis by simp
  next
    assume "\<exists>r. M' = snd (for_each (update_pair t d r) mods M)"
    then obtain r where "M' = snd (for_each (update_pair t d r) mods M)" ..
    then show ?thesis
      using update_loop_frame[where t = t and d = d and r = r and mods = mods and M = M] by blast
  qed
qed

theorem update_affinity_frame_witness:
  "py_keys (stored_matrix (snd (update_affinity ''brainstorm'' ''testing''
       [(''research'', ''v1''), (''nope'', ''v1'')] 0.05 ''t1'' initial_world)))
     = py_keys DEFAULT_AFFINITY
   \<and> scores_at (stored_matrix (snd (update_affinity ''brainstorm'' ''testing''
       [(''research'', ''v1''), (''nope'', ''v1'')] 0.05 ''t1'' initial_world))) ''research'' ''v2''
     = scores_at DEFAULT_AFFINITY ''research'' ''v2''
   \<and> score_at (stored_matrix (snd (update_affinity ''brainstorm'' ''testing''
       [(''research'', ''v1''), (''nope'', ''v1'')] 0.05 ''t1'' initial_world)))
         ''research'' ''v1'' ''planning''
     = score_at DEFAULT_AFFINITY ''research'' ''v1'' ''planning''"
proof -
  have sm: "stored_matrix initial_world = DEFAULT_AFFINITY"
    by (simp add: stored_matrix_def load_affinity_matrix_def initial_world_def)
  show ?thesis
    using update_affinity_frame
      [of "''brainstorm''" "''testing''" "[(''research'', ''v1''), (''nope'', ''v1'')]"
          "0.05" "''t1''" initial_world]
    unfolding sm by simp
qed


section \<open>Rounding\<close>

lemma py_round_shape:
  fixes x :: real and n :: nat
  defines "y \<equiv> x * 10 ^ n"
  shows "\<exists>j. py_round x n = of_int j / 10 ^ n \<and> (j = \<lfloor>y\<rfloor> \<or> j = \<lfloor>y\<rfloor> + 1)
           \<and> \<bar>of_int j - y\<bar> \<le> 1 / 2"
proof -
  let ?f = "\<lfloor>y\<rfloor>"
  let ?d = "y - of_int ?f"
  have d: "0 \<le> ?d" "?d < 1" by linarith+
  consider (down) "?d < 1/2" | (up) "?d > 1/2" | (even) "?d = 1/2" "even ?f"
    | (odd) "?d = 1/2" "\<not> even ?f"
    by linarith
  then show ?thesis
  proof cases
    case down
    then have "py_round x n = of_int ?f / 10 ^ n"
      by (simp add: py_round_def y_def Let_def)
    moreover have "\<bar>of_int ?f - y\<bar> \<le> 1 / 2" using down d by linarith
    ultimately show ?thesis by blast
  next
    case up
    then have "py_round x n = of_int (?f + 1) / 10 ^ n"
      by (simp add: py_round_def y_def Let_def)
    moreover have "\<bar>of_int (?f + 1) - y\<bar> \<le> 1 / 2" using up d by (simp; linarith)
    ultimately show ?thesis by blast
  next
    case even
    then have "py_round x n = of_int ?f / 10 ^ n"
      by (simp add: py_round_def y_def Let_def)
    moreover have "\<bar>of_int ?f - y\<bar> \<le> 1 / 2" using even d by linarith
    ultimately show ?thesis by blast
  next
    case odd
    then have "py_round x n = of_int (?f + 1) / 10 ^ n"
      by (simp add: py_round_def y_def Let_def)
    moreover have "\<bar>of_int (?f + 1) - y\<bar> \<le> 1 / 2" using odd d by (simp; linarith)
    ultimately show ?thesis by blast
  qed
qed

lemma py_round_ge:
  assumes "of_int k \<le> x * 10 ^ n"
  shows "of_int k / 10 ^ n \<le> py_round x n"
proof -
  obtain j where j: "py_round x n = of_int j / 10 ^ n" "j = \<lfloor>x * 10 ^ n\<rfloor> \<or> j = \<lfloor>x * 10 ^ n\<rfloor> + 1"
    using py_round_shape[of x n] by blast
  have "k \<le> \<lfloor>x * 10 ^ n\<rfloor>" using assms by (simp add: le_floor_iff)
  then have "k \<le> j" using j(2) by auto
  then have "(of_int k :: real) \<le> of_int j" by simp
  then show ?thesis using j(1) by (simp add: divide_right_mono)
qed

lemma py_round_fix:
  assumes "x * 10 ^ n = of_int k"
  shows "py_round x n = x"
proof -
  have "py_round x n = of_int k / 10 ^ n"
    using assms by (simp add: py_round_def Let_def)
  also have "\<dots> = x" using assms[symmetric] by simp
  finally show ?thesis .
qed

lemma py_round_le:
  assumes "x * 10 ^ n \<le> of_int k"
  shows "py_round x n \<le> of_int k / 10 ^ n"
proof (cases "x * 10 ^ n = of_int k")
  case True
  then show ?thesis using py_round_fix[OF True] by (simp add: field_simps)
next
  case False
  obtain j where j: "py_round x n = of_int j / 10 ^ n" "j = \<lfloor>x * 10 ^ n\<rfloor> \<or> j = \<lfloor>x * 10 ^ n\<rfloor> + 1"
    using py_round_shape[of x n] by blast
  have "x * 10 ^ n < of_int k" using assms False by simp
  then have "\<lfloor>x * 10 ^ n\<rfloor> < k" by (simp add: floor_less_iff)
  then have "j \<le> k" using j(2) by auto
  then have "(of_int j :: real) \<le> of_int k" by simp
  then show ?thesis using j(1) by (simp add: divide_right_mono)
qed

lemma py_round_near: "\<bar>py_round x n - x\<bar> \<le> 1 / (2 * 10 ^ n)"
proof -
  obtain j where j: "py_round x n = of_int j / 10 ^ n" "\<bar>of_int j - x * 10 ^ n\<bar> \<le> 1 / 2"
    using py_round_shape[of x n] by blast
  have "py_round x n - x = (of_int j - x * 10 ^ n) / 10 ^ n"
    using j(1) by (simp add: field_simps)
  then have "\<bar>py_round x n - x\<bar> = \<bar>of_int j - x * 10 ^ n\<bar> / 10 ^ n"
    by simp
  also have "\<dots> \<le> (1 / 2) / 10 ^ n"
    using j(2) by (rule divide_right_mono) simp
  also have "\<dots> = 1 / (2 * 10 ^ n)" by simp
  finally show ?thesis .
qed

lemma py_round_idem: "py_round (py_round x n) n = py_round x n"
proof -
  obtain j where j: "py_round x n = of_int j / 10 ^ n"
    using py_round_shape[of x n] by blast
  then have "py_round x n * 10 ^ n = of_int j" by simp
  then show ?thesis by (rule py_round_fix)
qed

lemma new_score_bounds: "0.1 \<le> new_score c d r" "new_score c d r \<le> 0.99"
  by (auto simp: new_score_def Let_def max_def min_def)

lemma stored_score_bounds: "0.1 \<le> stored_score c d r" "stored_score c d r \<le> 0.99"
proof -
  have "of_int 100 \<le> new_score c d r * 10 ^ 3"
    using new_score_bounds(1)[of c d r] by simp
  from py_round_ge[OF this] show "0.1 \<le> stored_score c d r"
    by (simp add: stored_score_def)
  have "new_score c d r * 10 ^ 3 \<le> of_int 990"
    using new_score_bounds(2)[of c d r] by simp
  from py_round_le[OF this] show "stored_score c d r \<le> 0.99"
    by (simp add: stored_score_def)
qed

lemma stored_score_zero_delta:
  "0.1 \<le> c \<Longrightarrow> c \<le> 0.99 \<Longrightarrow> stored_score c 0 r = py_round c 3"
  by (simp add: stored_score_def new_score_def)

section \<open>Matrices of a given shape\<close>


lemma dict_all_lookup: "dict_all P (PDict kvs) \<Longrightarrow> map_of kvs k = Some v \<Longrightarrow> P v"
proof -
  assume a: "dict_all P (PDict kvs)" "map_of kvs k = Some v"
  have "(k, v) \<in> set kvs" using a(2) by (rule map_of_SomeD)
  then have "P (snd (k, v))" using a(1) by (simp add: list_all_iff del: snd_conv)
  then show "P v" by simp
qed

lemma set_update_cases:
  "p \<in> set (AList.update k v kvs) \<Longrightarrow> p = (k, v) \<or> p \<in> set kvs"
  by (induction kvs) (auto split: if_splits)

lemma dict_all_update:
  "dict_all P (PDict kvs) \<Longrightarrow> P v \<Longrightarrow> dict_all P (PDict (AList.update k v kvs))"
  by (auto simp: list_all_iff dest: set_update_cases)

lemma dict_all_mono: "dict_all P x \<Longrightarrow> (\<And>y. P y \<Longrightarrow> Q y) \<Longrightarrow> dict_all Q x"
  by (cases x) (auto simp: list_all_iff)

lemma update_pair_preserves:
  assumes "dict_all (dict_all (dict_all Q)) M" "update_pair t d r M (m0, v0) = Inr M'"
    and "\<And>c. Q (PFloat (stored_score c d r))"
  shows "dict_all (dict_all (dict_all Q)) M'"
  using assms(2)
proof (cases rule: update_pair_result)
  case same
  then show ?thesis using assms(1) by simp
next
  case (changed ms vs ss c)
  have 1: "dict_all (dict_all Q) (PDict vs)"
    using assms(1) changed(1,2) dict_all_lookup by blast
  then have 2: "dict_all Q (PDict ss)"
    using changed(3) dict_all_lookup by blast
  have "dict_all Q (PDict (AList.update t (PFloat (stored_score c d r)) ss))"
    using 2 assms(3) by (rule dict_all_update)
  with 1 have "dict_all (dict_all Q) (PDict (AList.update v0
      (PDict (AList.update t (PFloat (stored_score c d r)) ss)) vs))"
    by (rule dict_all_update)
  with assms(1)[unfolded changed(1)] show ?thesis
    unfolding changed(5) by (rule dict_all_update)
qed





lemma update_loop_preserves:
  assumes "dict_all (dict_all (dict_all Q)) M" and "\<And>c. Q (PFloat (stored_score c d r))"
  shows "dict_all (dict_all (dict_all Q)) (snd (for_each (update_pair t d r) mods M))"
proof (rule for_each_invariant[where P = "dict_all (dict_all (dict_all Q))"])
  fix s x s'
  assume a: "dict_all (dict_all (dict_all Q)) s" "x \<in> set mods" "update_pair t d r s x = Inr s'"
  obtain m0 v0 where x: "x = (m0, v0)" by (cases x)
  show "dict_all (dict_all (dict_all Q)) s'"
    using a(1) a(3)[unfolded x] assms(2) by (rule update_pair_preserves)
qed (rule assms(1))

lemma get_score_effect:
  assumes "update_pair t d r M (m0, v0) = Inr M'"
  shows "get_score M' m v t' =
     (if (m, v, t') = (m0, v0, t) \<and> scores_at M m0 v0 \<noteq> None
      then map_option (\<lambda>c. stored_score c d r) (get_score M m v t')
      else get_score M m v t')"
  using assms
proof (cases rule: update_pair_result)
  case same
  then show ?thesis by simp
next
  case (changed ms vs ss c)
  then show ?thesis
    by (auto simp: get_score_def scores_at_def update_conv' split: option.splits)
qed

section \<open>Written scores stay in the interval\<close>

lemma in_range_stored: "in_range (PFloat (stored_score c d r))"
  using stored_score_bounds[of c d r] by (simp add: in_range_def)

lemma update_loop_written:
  assumes "for_each (update_pair t d r) mods M = (None, M')"
    and "(m, v) \<in> set mods" and "scores_at M m v \<noteq> None"
  shows "\<exists>x. get_score M' m v t = Some x \<and> 0.1 \<le> x \<and> x \<le> 0.99"
  using assms
proof (induction mods arbitrary: M)
  case Nil
  then show ?case by simp
next
  case (Cons p ps)
  obtain m0 v0 where p: "p = (m0, v0)" by (cases p)
  obtain M1 where M1: "update_pair t d r M (m0, v0) = Inr M1"
    using Cons.prems(1) p by (cases "update_pair t d r M (m0, v0)") simp_all
  then have rest: "for_each (update_pair t d r) ps M1 = (None, M')"
    using Cons.prems(1) p by simp
  have M': "M' = snd (for_each (update_pair t d r) ps M1)" using rest by simp
  show ?case
  proof (cases "(m, v) = (m0, v0)")
    case True
    then obtain c where "get_score M m0 v0 t = Some c"
      using update_pair_effect(9)[OF M1] Cons.prems(3) by blast
    then have "get_score M1 m v t = Some (stored_score c d r)"
      using get_score_effect[OF M1, of m v t] True Cons.prems(3) by simp
    then have start: "\<exists>x. get_score M1 m v t = Some x \<and> 0.1 \<le> x \<and> x \<le> 0.99"
      using stored_score_bounds[of c d r] by simp
    show ?thesis
      unfolding M'
    proof (rule for_each_invariant
        [where P = "\<lambda>X. \<exists>x. get_score X m v t = Some x \<and> 0.1 \<le> x \<and> x \<le> 0.99"])
      fix s y s'
      assume a: "\<exists>x. get_score s m v t = Some x \<and> 0.1 \<le> x \<and> x \<le> 0.99"
        "y \<in> set ps" "update_pair t d r s y = Inr s'"
      obtain m1 v1 where y: "y = (m1, v1)" by (cases y)
      obtain x where x: "get_score s m v t = Some x" "0.1 \<le> x" "x \<le> 0.99" using a(1) by blast
      have "get_score s' m v t = Some x \<or> get_score s' m v t = Some (stored_score x d r)"
        using get_score_effect[OF a(3)[unfolded y], of m v t] x(1) by (auto split: if_splits)
      then show "\<exists>x. get_score s' m v t = Some x \<and> 0.1 \<le> x \<and> x \<le> 0.99"
        using x stored_score_bounds[of x d r] by auto
    qed (rule start)
  next
    case False
    then have "(m, v) \<in> set ps" using Cons.prems(2) p by auto
    moreover have "scores_at M1 m v \<noteq> None"
      using update_pair_effect(7)[OF M1, of m v] Cons.prems(3) by simp
    ultimately show ?thesis using Cons.IH[OF rest] by blast
  qed
qed

lemma update_loop_in_range:
  "scores_in_range M \<Longrightarrow> scores_in_range (snd (for_each (update_pair t d r) mods M))"
  unfolding scores_in_range_def
  by (rule update_loop_preserves) (simp_all add: in_range_stored)

lemma update_affinity_in_range:
  assumes "world_in_range w"
  shows "world_in_range (snd (update_affinity skill t mods d now w))"
proof (cases rule: update_affinity_observed[of skill t mods d now w])
  case (unchanged e)
  then show ?thesis using assms by simp
next
  case (raised e r)
  then show ?thesis
    using assms update_loop_in_range[of "stored_matrix w" t d r mods]
    by (auto simp: world_in_range_def)
next
  case (saved r n)
  then show ?thesis
    using assms update_loop_in_range[of "stored_matrix w" t d r mods]
    by (auto simp: world_in_range_def)
qed

lemma run_in_range: "world_in_range w \<Longrightarrow> world_in_range (run ops w)"
proof (induction ops arbitrary: w)
  case Nil
  then show ?case by (simp add: run_def)
next
  case (Cons op ops)
  have "world_in_range (perform op w)"
    using Cons.prems update_affinity_in_range by (cases op) simp_all
  then have "world_in_range (run ops (perform op w))" by (rule Cons.IH)
  then show ?case by (simp add: run_def)
qed

lemma DEFAULT_AFFINITY_in_range: "scores_in_range DEFAULT_AFFINITY"
  by code_simp

lemma initial_world_in_range: "world_in_range initial_world"
  using DEFAULT_AFFINITY_in_range
  by (simp add: world_in_range_def initial_world_def stored_matrix_def load_affinity_matrix_def)

text \<open>
  Claim C4.  The score that the update stores lies in \<open>[0.1, 0.99]\<close> for every current score,
  every fitness delta and every rate.  After an update that ends without an exception, every
  pair of \<^verbatim>\<open>modules\<close> that the matrix knows reads a score of that interval for the task type.
  Starting from the seed default, with no file, the matrix holds scores of the interval only
  after any run; and any world whose matrices hold such scores only keeps that property.
\<close>

theorem written_scores_in_range:
  "0.1 \<le> stored_score c d r \<and> stored_score c d r \<le> 0.99
   \<and> (fst (update_affinity skill t mods d now w) = None \<and> (m, v) \<in> set mods
        \<and> scores_at (stored_matrix w) m v \<noteq> None \<longrightarrow>
        (\<exists>x. get_score (stored_matrix (snd (update_affinity skill t mods d now w))) m v t = Some x
           \<and> 0.1 \<le> x \<and> x \<le> 0.99))
   \<and> scores_in_range (stored_matrix (run ops initial_world))
   \<and> (world_in_range w \<longrightarrow> world_in_range (run ops w))"
proof -
  have "\<exists>x. get_score (stored_matrix (snd (update_affinity skill t mods d now w))) m v t = Some x
           \<and> 0.1 \<le> x \<and> x \<le> 0.99"
    if a: "fst (update_affinity skill t mods d now w) = None" "(m, v) \<in> set mods"
      "scores_at (stored_matrix w) m v \<noteq> None"
  proof (cases rule: update_affinity_observed[of skill t mods d now w])
    case (saved r n)
    have "for_each (update_pair t d r) mods (stored_matrix w) =
        (None, stored_matrix (snd (update_affinity skill t mods d now w)))"
      using saved(2,3) by (simp add: prod_eq_iff)
    from update_loop_written[OF this a(2,3)] show ?thesis .
  qed (use a in simp_all)
  moreover have "scores_in_range (stored_matrix (run ops initial_world))"
    using run_in_range[OF initial_world_in_range, of ops] by (simp add: world_in_range_def)
  ultimately show ?thesis
    using stored_score_bounds[of c d r] run_in_range[of w ops] by blast
qed

theorem written_scores_in_range_witness:
  "0.1 \<le> stored_score 0.5 1000 0.3 \<and> stored_score 0.5 (- 1000) 0.3 \<le> 0.99
   \<and> get_score (stored_matrix (snd (update_affinity ''brainstorm'' ''testing''
         [(''research'', ''v1'')] 1000 ''t1'' initial_world))) ''research'' ''v1'' ''testing''
       = Some 0.99
   \<and> scores_in_range (stored_matrix (run
         [Update ''brainstorm'' ''testing'' [(''research'', ''v1'')] 1000 ''t1'',
          Update ''debugger'' ''review'' [(''output'', ''v3'')] (- 1000) ''t2''] initial_world))"
proof -
  have a: "fst (update_affinity ''brainstorm'' ''testing''
         [(''research'', ''v1'')] 1000 ''t1'' initial_world) = None"
    by code_simp
  have b: "scores_at (stored_matrix initial_world) ''research'' ''v1'' \<noteq> None"
    by code_simp
  have c: "get_score (stored_matrix (snd (update_affinity ''brainstorm'' ''testing''
         [(''research'', ''v1'')] 1000 ''t1'' initial_world))) ''research'' ''v1'' ''testing''
       = Some 0.99"
    by code_simp
  show ?thesis
    using written_scores_in_range
      [of "0.5" "1000" "0.3" "''brainstorm''" "''testing''" "[(''research'', ''v1'')]" "''t1''"
          initial_world "''research''" "''v1''"
          "[Update ''brainstorm'' ''testing'' [(''research'', ''v1'')] 1000 ''t1'',
            Update ''debugger'' ''review'' [(''output'', ''v3'')] (- 1000) ''t2'']"]
      written_scores_in_range [of "0.5" "- 1000" "0.3"]
      a b c
    by simp
qed

section \<open>An update with fitness delta zero\<close>

lemma py_round_in_range:
  assumes "0.1 \<le> c" "c \<le> 0.99"
  shows "0.1 \<le> py_round c 3" "py_round c 3 \<le> 0.99"
proof -
  have "of_int 100 \<le> c * 10 ^ 3" using assms(1) by simp
  from py_round_ge[OF this] show "0.1 \<le> py_round c 3" by simp
  have "c * 10 ^ 3 \<le> of_int 990" using assms(2) by simp
  from py_round_le[OF this] show "py_round c 3 \<le> 0.99" by simp
qed

lemma stored_score_zero:
  "stored_score c 0 r = py_round (max 0.1 (min 0.99 c)) 3"
  "stored_score (py_round (max 0.1 (min 0.99 c)) 3) 0 r = py_round (max 0.1 (min 0.99 c)) 3"
proof -
  let ?k = "max 0.1 (min 0.99 c)"
  show 1: "stored_score c 0 r = py_round ?k 3"
    by (simp add: stored_score_def new_score_def)
  have "0.1 \<le> ?k" "?k \<le> 0.99" by (auto simp: max_def min_def)
  then have "0.1 \<le> py_round ?k 3" "py_round ?k 3 \<le> 0.99"
    by (rule py_round_in_range)+
  then have "stored_score (py_round ?k 3) 0 r = py_round (py_round ?k 3) 3"
    by (rule stored_score_zero_delta)
  then show "stored_score (py_round ?k 3) 0 r = py_round ?k 3"
    by (simp add: py_round_idem)
qed

lemma update_loop_zero_delta:
  assumes "get_score M m v t' = Some c"
  shows "get_score (snd (for_each (update_pair t 0 r) mods M)) m v t' = Some c
       \<or> get_score (snd (for_each (update_pair t 0 r) mods M)) m v t'
           = Some (py_round (max 0.1 (min 0.99 c)) 3)"
proof (rule for_each_invariant
    [where P = "\<lambda>X. get_score X m v t' = Some c
        \<or> get_score X m v t' = Some (py_round (max 0.1 (min 0.99 c)) 3)"])
  fix s x s'
  assume a: "get_score s m v t' = Some c
      \<or> get_score s m v t' = Some (py_round (max 0.1 (min 0.99 c)) 3)"
    "x \<in> set mods" "update_pair t 0 r s x = Inr s'"
  obtain m0 v0 where x: "x = (m0, v0)" by (cases x)
  note e = get_score_effect[OF a(3)[unfolded x], of m v t']
  show "get_score s' m v t' = Some c
      \<or> get_score s' m v t' = Some (py_round (max 0.1 (min 0.99 c)) 3)"
    using a(1) e stored_score_zero[of c r] by (auto split: if_splits)
qed (simp add: assms(1))

text \<open>
  Claim C5.  An update with fitness delta 0 that ends without an exception increments the
  observation counter by exactly 1, and every score that could be read before can be read
  after: it is the same number, or that number clamped to \<open>[0.1, 0.99]\<close> and rounded to 3
  decimal places.  For a score of the interval the two differ by at most 0.0005, and they are
  equal when the score has at most 3 decimal places.
\<close>

theorem zero_delta_update:
  "fst (update_affinity skill t mods 0 now w) = None \<longrightarrow>
     (\<exists>n. observations_of w = Some n
        \<and> observations_of (snd (update_affinity skill t mods 0 now w)) = Some (n + 1))
     \<and> (\<forall>m v t' c. get_score (stored_matrix w) m v t' = Some c \<longrightarrow>
          (\<exists>c'. get_score (stored_matrix (snd (update_affinity skill t mods 0 now w))) m v t' = Some c'
             \<and> (c' = c \<or> c' = py_round (max 0.1 (min 0.99 c)) 3)
             \<and> (0.1 \<le> c \<and> c \<le> 0.99 \<longrightarrow> \<bar>c' - c\<bar> \<le> 0.0005 \<and> (c * 1000 \<in> \<int> \<longrightarrow> c' = c))))"
proof
  let ?w' = "snd (update_affinity skill t mods 0 now w)"
  assume ok: "fst (update_affinity skill t mods 0 now w) = None"
  have "\<exists>c'. get_score (stored_matrix ?w') m v t' = Some c'
             \<and> (c' = c \<or> c' = py_round (max 0.1 (min 0.99 c)) 3)
             \<and> (0.1 \<le> c \<and> c \<le> 0.99 \<longrightarrow> \<bar>c' - c\<bar> \<le> 0.0005 \<and> (c * 1000 \<in> \<int> \<longrightarrow> c' = c))"
    if g: "get_score (stored_matrix w) m v t' = Some c" for m v t' c
  proof -
    obtain r where "stored_matrix ?w' = snd (for_each (update_pair t 0 r) mods (stored_matrix w))"
      using ok by (cases rule: update_affinity_observed[of skill t mods 0 now w]) simp_all
    then have alt: "get_score (stored_matrix ?w') m v t' = Some c
        \<or> get_score (stored_matrix ?w') m v t' = Some (py_round (max 0.1 (min 0.99 c)) 3)"
      using update_loop_zero_delta[OF g, of t r mods] by simp
    have clamp: "max 0.1 (min 0.99 c) = c" if "0.1 \<le> c \<and> c \<le> 0.99"
      using that by (simp add: max_def min_def)
    have near: "\<bar>py_round c 3 - c\<bar> \<le> 0.0005"
      using py_round_near[of c 3] by simp
    have exact: "py_round c 3 = c" if ints: "c * 1000 \<in> \<int>"
    proof -
      obtain k :: int where "c * 1000 = of_int k" using ints by (auto elim: Ints_cases)
      then have "c * 10 ^ 3 = of_int k" by simp
      then show ?thesis by (rule py_round_fix)
    qed
    show ?thesis using alt clamp near exact by auto
  qed
  moreover have "\<exists>n. observations_of w = Some n \<and> observations_of ?w' = Some (n + 1)"
    using update_affinity_counts(1)[OF ok] .
  ultimately show "(\<exists>n. observations_of w = Some n \<and> observations_of ?w' = Some (n + 1))
     \<and> (\<forall>m v t' c. get_score (stored_matrix w) m v t' = Some c \<longrightarrow>
          (\<exists>c'. get_score (stored_matrix ?w') m v t' = Some c'
             \<and> (c' = c \<or> c' = py_round (max 0.1 (min 0.99 c)) 3)
             \<and> (0.1 \<le> c \<and> c \<le> 0.99 \<longrightarrow> \<bar>c' - c\<bar> \<le> 0.0005 \<and> (c * 1000 \<in> \<int> \<longrightarrow> c' = c))))"
    by blast
qed

theorem zero_delta_update_witness:
  "observations_of (snd (update_affinity ''brainstorm'' ''testing''
       [(''research'', ''v1''), (''output'', ''v2'')] 0 ''t1'' initial_world)) = Some 1
   \<and> get_score (stored_matrix (snd (update_affinity ''brainstorm'' ''testing''
       [(''research'', ''v1''), (''output'', ''v2'')] 0 ''t1'' initial_world)))
       ''research'' ''v1'' ''testing'' = Some 0.55"
proof -
  have a: "fst (update_affinity ''brainstorm'' ''testing''
       [(''research'', ''v1''), (''output'', ''v2'')] 0 ''t1'' initial_world) = None"
    by code_simp
  have b: "observations_of initial_world = Some 0"
    by code_simp
  have c: "get_score (stored_matrix initial_world) ''research'' ''v1'' ''testing'' = Some 0.55"
    by code_simp
  have d: "(0.55 :: real) * 1000 \<in> \<int>"
  proof -
    have "(0.55 :: real) * 1000 = of_int 550" by simp
    then show ?thesis by (simp only: Ints_of_int)
  qed
  note th = zero_delta_update
      [of "''brainstorm''" "''testing''" "[(''research'', ''v1''), (''output'', ''v2'')]"
          "''t1''" initial_world]
  from th a b have 1: "observations_of (snd (update_affinity ''brainstorm'' ''testing''
       [(''research'', ''v1''), (''output'', ''v2'')] 0 ''t1'' initial_world)) = Some 1"
    by auto
  from th a c obtain c' where c':
    "get_score (stored_matrix (snd (update_affinity ''brainstorm'' ''testing''
       [(''research'', ''v1''), (''output'', ''v2'')] 0 ''t1'' initial_world)))
       ''research'' ''v1'' ''testing'' = Some c'"
    "0.1 \<le> (0.55 :: real) \<and> (0.55 :: real) \<le> 0.99 \<longrightarrow>
       \<bar>c' - 0.55\<bar> \<le> 0.0005 \<and> ((0.55 :: real) * 1000 \<in> \<int> \<longrightarrow> c' = 0.55)"
    by blast
  have "c' = 0.55" using c'(2) d by simp
  then show ?thesis using 1 c'(1) by simp
qed

section \<open>Unknown identifiers\<close>








section \<open>Selection returns the first variant of the highest score\<close>

lemma score_of_Some:
  "score_of t scores = Some c \<longleftrightarrow> (\<exists>x. py_get scores t default_score = Inr x \<and> py_num x = Some c)"
  by (auto simp: score_of_def split: sum.splits)

lemma scan_variant_step:
  assumes "py_get scores t default_score = Inr x" "py_num x = Some c" "py_num bs = Some b"
  shows "scan_variant t (bv, bs) (v, scores) = Inr (if b < c then (PStr v, x) else (bv, bs))"
  using assms by (simp add: scan_variant_def py_gt_def)

lemma scan_variants:
  assumes "\<forall>(v, scores)\<in>set vs. score_of t scores \<noteq> None" and "py_num bs = Some b"
  shows "(for_each (scan_variant t) vs (bv, bs) = (None, (bv, bs))
            \<and> (\<forall>(v, scores)\<in>set vs. \<exists>c. score_of t scores = Some c \<and> c \<le> b))
       \<or> (\<exists>v x c. for_each (scan_variant t) vs (bv, bs) = (None, (PStr v, x))
            \<and> wins t vs v x \<and> py_num x = Some c \<and> b < c)"
  using assms
proof (induction vs arbitrary: bv bs b)
  case Nil
  then show ?case by simp
next
  case (Cons p rest)
  obtain v scores where p: "p = (v, scores)" by (cases p)
  obtain x c where x: "py_get scores t default_score = Inr x" "py_num x = Some c"
    using Cons.prems(1) p by (auto simp: score_of_Some)
  have sc: "score_of t scores = Some c" using x by (auto simp: score_of_Some)
  have rest: "\<forall>(v, scores)\<in>set rest. score_of t scores \<noteq> None"
    using Cons.prems(1) by simp
  note step = scan_variant_step[OF x Cons.prems(2), of bv v]
  show ?case
  proof (cases "b < c")
    case True
    have run: "for_each (scan_variant t) (p # rest) (bv, bs)
        = for_each (scan_variant t) rest (PStr v, x)"
      using step True p by simp
    from Cons.IH[OF rest x(2), of "PStr v"]
    show ?thesis
    proof
      assume a: "for_each (scan_variant t) rest (PStr v, x) = (None, (PStr v, x))
            \<and> (\<forall>(v, scores)\<in>set rest. \<exists>c'. score_of t scores = Some c' \<and> c' \<le> c)"
      have "p # rest = [] @ (v, scores) # rest" using p by simp
      then have "wins t (p # rest) v x"
        unfolding wins_def using x a by (intro exI[of _ "[]"] exI[of _ scores] exI[of _ rest] exI[of _ c]) simp
      then show ?thesis using run a x(2) True by auto
    next
      assume "\<exists>v' x' c'. for_each (scan_variant t) rest (PStr v, x) = (None, (PStr v', x'))
            \<and> wins t rest v' x' \<and> py_num x' = Some c' \<and> c < c'"
      then obtain v' x' c' where b: "for_each (scan_variant t) rest (PStr v, x) = (None, (PStr v', x'))"
        "wins t rest v' x'" "py_num x' = Some c'" "c < c'"
        by blast
      obtain pre s' post c2 where w: "rest = pre @ (v', s') # post"
        "py_get s' t default_score = Inr x'" "py_num x' = Some c2"
        "\<forall>(v', scores')\<in>set pre. \<exists>c'. score_of t scores' = Some c' \<and> c' < c2"
        "\<forall>(v', scores')\<in>set post. \<exists>c'. score_of t scores' = Some c' \<and> c' \<le> c2"
        using b(2) unfolding wins_def by blast
      have c2: "c2 = c'" using w(3) b(3) by simp
      have "p # rest = (p # pre) @ (v', s') # post" using w(1) by simp
      moreover have "\<forall>(v', scores')\<in>set (p # pre). \<exists>c'. score_of t scores' = Some c' \<and> c' < c2"
        using w(4) p sc b(4) c2 by simp
      ultimately have "wins t (p # rest) v' x'"
        unfolding wins_def using w(2,3,5) by blast
      then show ?thesis using run b True by auto
    qed
  next
    case False
    have run: "for_each (scan_variant t) (p # rest) (bv, bs)
        = for_each (scan_variant t) rest (bv, bs)"
      using step False p by simp
    from Cons.IH[OF rest Cons.prems(2), of bv]
    show ?thesis
    proof
      assume a: "for_each (scan_variant t) rest (bv, bs) = (None, (bv, bs))
            \<and> (\<forall>(v, scores)\<in>set rest. \<exists>c'. score_of t scores = Some c' \<and> c' \<le> b)"
      then show ?thesis using run p sc False by auto
    next
      assume "\<exists>v' x' c'. for_each (scan_variant t) rest (bv, bs) = (None, (PStr v', x'))
            \<and> wins t rest v' x' \<and> py_num x' = Some c' \<and> b < c'"
      then obtain v' x' c' where b: "for_each (scan_variant t) rest (bv, bs) = (None, (PStr v', x'))"
        "wins t rest v' x'" "py_num x' = Some c'" "b < c'"
        by blast
      obtain pre s' post c2 where w: "rest = pre @ (v', s') # post"
        "py_get s' t default_score = Inr x'" "py_num x' = Some c2"
        "\<forall>(v', scores')\<in>set pre. \<exists>c'. score_of t scores' = Some c' \<and> c' < c2"
        "\<forall>(v', scores')\<in>set post. \<exists>c'. score_of t scores' = Some c' \<and> c' \<le> c2"
        using b(2) unfolding wins_def by blast
      have c2: "c2 = c'" using w(3) b(3) by simp
      have "p # rest = (p # pre) @ (v', s') # post" using w(1) by simp
      moreover have "\<forall>(v', scores')\<in>set (p # pre). \<exists>c'. score_of t scores' = Some c' \<and> c' < c2"
        using w(4) p sc b(4) c2 False by simp
      ultimately have "wins t (p # rest) v' x'"
        unfolding wins_def using w(2,3,5) by blast
      then show ?thesis using run b by auto
    qed
  qed
qed

lemma wins_member: "wins t vs v x \<Longrightarrow> \<exists>scores. (v, scores) \<in> set vs"
  unfolding wins_def by auto

lemma scan_module_good:
  assumes "list_all (\<lambda>(v, scores).
      v \<noteq> [] \<and> (case score_of t scores of None \<Rightarrow> False | Some c \<Rightarrow> - 1 < c)) vs"
  shows "vs = [] \<Longrightarrow> scan_module t best (m, PDict vs) = Inr best"
    and "vs \<noteq> [] \<Longrightarrow> \<exists>v x. wins t vs v x
           \<and> scan_module t best (m, PDict vs)
               = Inr (AList.update m (PDict [(''variant'', PStr v), (''score'', x)]) best)"
proof -
  show "scan_module t best (m, PDict vs) = Inr best" if "vs = []"
    using that by (simp add: scan_module_def)
  show "\<exists>v x. wins t vs v x
           \<and> scan_module t best (m, PDict vs)
               = Inr (AList.update m (PDict [(''variant'', PStr v), (''score'', x)]) best)"
    if ne: "vs \<noteq> []"
  proof -
    have all: "\<forall>(v, scores)\<in>set vs. v \<noteq> [] \<and> (\<exists>c. score_of t scores = Some c \<and> - 1 < c)"
      using assms by (auto simp: list_all_iff split: option.splits)
    then have num: "\<forall>(v, scores)\<in>set vs. score_of t scores \<noteq> None" by fastforce
    have start: "py_num (PInt (- 1)) = Some (- 1)" by simp
    from scan_variants[OF num start, of PNone]
    show ?thesis
    proof
      assume a: "for_each (scan_variant t) vs (PNone, PInt (- 1)) = (None, PNone, PInt (- 1)) \<and>
        (\<forall>(v, scores)\<in>set vs. \<exists>c. score_of t scores = Some c \<and> c \<le> - 1)"
      obtain v scores where "(v, scores) \<in> set vs" using ne by (cases vs) auto
      then have False using a all by fastforce
      then show ?thesis ..
    next
      assume "\<exists>v x c. for_each (scan_variant t) vs (PNone, PInt (- 1)) = (None, PStr v, x) \<and>
        wins t vs v x \<and> py_num x = Some c \<and> - 1 < c"
      then obtain v x where r: "for_each (scan_variant t) vs (PNone, PInt (- 1)) = (None, PStr v, x)"
        "wins t vs v x"
        by blast
      have "v \<noteq> []" using wins_member[OF r(2)] all by fastforce
      then have "scan_module t best (m, PDict vs)
               = Inr (AList.update m (PDict [(''variant'', PStr v), (''score'', x)]) best)"
        using r(1) by (simp add: scan_module_def)
      then show ?thesis using r(2) by blast
    qed
  qed
qed

lemma update_fresh: "k \<notin> fst ` set kvs \<Longrightarrow> AList.update k v kvs = kvs @ [(k, v)]"
  by (induction kvs) auto

lemma scan_modules:
  assumes "list_all (\<lambda>(m, variants).
               case variants of
                 PDict vs \<Rightarrow>
                   list_all (\<lambda>(v, scores).
                     v \<noteq> [] \<and> (case score_of t scores of None \<Rightarrow> False | Some c \<Rightarrow> - 1 < c)) vs
               | _ \<Rightarrow> False) ms"
    and "distinct (map fst ms)" and "fst ` set ms \<inter> fst ` set best = {}"
  shows "\<exists>best'. for_each (scan_module t) ms best = (None, best')
       \<and> map fst best' = map fst best @ map fst (filter (\<lambda>(m, variants). variants \<noteq> PDict []) ms)
       \<and> (\<forall>k. k \<notin> fst ` set ms \<longrightarrow> map_of best' k = map_of best k)
       \<and> (\<forall>(m, variants)\<in>set ms. \<forall>vs. variants = PDict vs \<and> vs \<noteq> [] \<longrightarrow>
            (\<exists>v x. wins t vs v x
               \<and> map_of best' m = Some (PDict [(''variant'', PStr v), (''score'', x)])))"
  using assms
proof (induction ms arbitrary: best)
  case Nil
  then show ?case by simp
next
  case (Cons p rest)
  obtain m variants where p: "p = (m, variants)" by (cases p)
  obtain vs where vs: "variants = PDict vs"
    and good: "list_all (\<lambda>(v, scores).
      v \<noteq> [] \<and> (case score_of t scores of None \<Rightarrow> False | Some c \<Rightarrow> - 1 < c)) vs"
    using Cons.prems(1) p by (cases variants) simp_all
  have rest_good: "list_all (\<lambda>(m, variants).
               case variants of
                 PDict vs \<Rightarrow>
                   list_all (\<lambda>(v, scores).
                     v \<noteq> [] \<and> (case score_of t scores of None \<Rightarrow> False | Some c \<Rightarrow> - 1 < c)) vs
               | _ \<Rightarrow> False) rest"
    using Cons.prems(1) by simp
  have rest_distinct: "distinct (map fst rest)" and m_new: "m \<notin> fst ` set rest"
    using Cons.prems(2) p by simp_all
  have m_fresh: "m \<notin> fst ` set best" using Cons.prems(3) p by auto
  show ?case
  proof (cases "vs = []")
    case True
    have step: "scan_module t best p = Inr best"
      using scan_module_good(1)[OF good True] p vs by simp
    have disj: "fst ` set rest \<inter> fst ` set best = {}" using Cons.prems(3) by auto
    obtain best' where b: "for_each (scan_module t) rest best = (None, best')"
      "map fst best' = map fst best @ map fst (filter (\<lambda>(m, variants). variants \<noteq> PDict []) rest)"
      "\<forall>k. k \<notin> fst ` set rest \<longrightarrow> map_of best' k = map_of best k"
      "\<forall>(m, variants)\<in>set rest. \<forall>vs. variants = PDict vs \<and> vs \<noteq> [] \<longrightarrow>
            (\<exists>v x. wins t vs v x
               \<and> map_of best' m = Some (PDict [(''variant'', PStr v), (''score'', x)]))"
      using Cons.IH[OF rest_good rest_distinct disj] by blast
    have 1: "for_each (scan_module t) (p # rest) best = (None, best')"
      using step b(1) by simp
    have 2: "map fst best' = map fst best
        @ map fst (filter (\<lambda>(m, variants). variants \<noteq> PDict []) (p # rest))"
      using b(2) p vs True by simp
    have 3: "\<forall>k. k \<notin> fst ` set (p # rest) \<longrightarrow> map_of best' k = map_of best k"
      using b(3) by simp
    have 4: "\<forall>(m, variants)\<in>set (p # rest). \<forall>vs. variants = PDict vs \<and> vs \<noteq> [] \<longrightarrow>
            (\<exists>v x. wins t vs v x
               \<and> map_of best' m = Some (PDict [(''variant'', PStr v), (''score'', x)]))"
      using b(4) p vs True by simp
    show ?thesis using 1 2 3 4 by blast
  next
    case False
    obtain v x where w: "wins t vs v x"
      "scan_module t best (m, PDict vs)
         = Inr (AList.update m (PDict [(''variant'', PStr v), (''score'', x)]) best)"
      using scan_module_good(2)[OF good False] by blast
    let ?e = "PDict [(''variant'', PStr v), (''score'', x)]"
    let ?best1 = "best @ [(m, ?e)]"
    have step: "scan_module t best p = Inr ?best1"
      using w(2) p vs update_fresh[OF m_fresh] by simp
    have disj: "fst ` set rest \<inter> fst ` set ?best1 = {}"
      using Cons.prems(3) m_new by auto
    obtain best' where b: "for_each (scan_module t) rest ?best1 = (None, best')"
      "map fst best' = map fst ?best1 @ map fst (filter (\<lambda>(m, variants). variants \<noteq> PDict []) rest)"
      "\<forall>k. k \<notin> fst ` set rest \<longrightarrow> map_of best' k = map_of ?best1 k"
      "\<forall>(m, variants)\<in>set rest. \<forall>vs. variants = PDict vs \<and> vs \<noteq> [] \<longrightarrow>
            (\<exists>v x. wins t vs v x
               \<and> map_of best' m = Some (PDict [(''variant'', PStr v), (''score'', x)]))"
      using Cons.IH[OF rest_good rest_distinct disj] by blast
    have 1: "for_each (scan_module t) (p # rest) best = (None, best')"
      using step b(1) by simp
    have 2: "map fst best' = map fst best
        @ map fst (filter (\<lambda>(m, variants). variants \<noteq> PDict []) (p # rest))"
      using b(2) p vs False by simp
    have "map_of best m = None" using m_fresh by (simp add: map_of_eq_None_iff)
    then have m1: "map_of ?best1 m = Some ?e"
      by (simp add: map_add_def)
    have 3: "\<forall>k. k \<notin> fst ` set (p # rest) \<longrightarrow> map_of best' k = map_of best k"
      using b(3) p by (auto simp: map_add_def split: option.splits)
    have "map_of best' m = Some ?e" using b(3) m_new m1 by simp
    then have 4: "\<forall>(m, variants)\<in>set (p # rest). \<forall>vs. variants = PDict vs \<and> vs \<noteq> [] \<longrightarrow>
            (\<exists>v x. wins t vs v x
               \<and> map_of best' m = Some (PDict [(''variant'', PStr v), (''score'', x)]))"
      using b(4) p vs w(1) by auto
    show ?thesis using 1 2 3 4 by blast
  qed
qed

text \<open>
  Claim C1, as the code has it.  Take a task type and a matrix: a dictionary with pairwise
  different module types, each holding a dictionary of variants, each variant with a name that
  is not empty and a dictionary of scores in which the score read for the task type (0.5 when
  there is no entry) is a number above -1, as every score of \<open>[0.1, 0.99]\<close> is.  Then
  \<^verbatim>\<open>get_best_modules\<close> raises nothing and returns a dictionary that holds, in the order of the
  matrix, exactly the module types that have a variant, each with the first of its variants,
  in their order, whose score for the task type is the highest, and with that score.  A
  matrix argument that is absent stands for the matrix of the loaded state.
\<close>

theorem get_best_modules_selects:
  assumes "selectable t (PDict ms)"
  shows "\<exists>best. get_best_modules t (PDict ms) w = Inr (PDict best)
     \<and> map fst best = map fst (filter (\<lambda>(m, variants). variants \<noteq> PDict []) ms)
     \<and> (\<forall>(m, variants)\<in>set ms. \<forall>vs. variants = PDict vs \<and> vs \<noteq> [] \<longrightarrow>
            (\<exists>v x. wins t vs v x
               \<and> map_of best m = Some (PDict [(''variant'', PStr v), (''score'', x)])))
     \<and> (stored_matrix w = PDict ms \<longrightarrow>
            get_best_modules t PNone w = get_best_modules t (PDict ms) w)"
proof -
  have good: "list_all (\<lambda>(m, variants).
               case variants of
                 PDict vs \<Rightarrow>
                   list_all (\<lambda>(v, scores).
                     v \<noteq> [] \<and> (case score_of t scores of None \<Rightarrow> False | Some c \<Rightarrow> - 1 < c)) vs
               | _ \<Rightarrow> False) ms"
    and dist: "distinct (map fst ms)"
    using assms by (simp_all add: selectable_def)
  obtain best where b: "for_each (scan_module t) ms [] = (None, best)"
      "map fst best = map fst [] @ map fst (filter (\<lambda>(m, variants). variants \<noteq> PDict []) ms)"
      "\<forall>(m, variants)\<in>set ms. \<forall>vs. variants = PDict vs \<and> vs \<noteq> [] \<longrightarrow>
            (\<exists>v x. wins t vs v x
               \<and> map_of best m = Some (PDict [(''variant'', PStr v), (''score'', x)]))"
    using scan_modules[OF good dist, of "[]"] by auto
  have 1: "get_best_modules t (PDict ms) w = Inr (PDict best)"
    using b(1) by (simp add: get_best_modules_def)
  have 2: "get_best_modules t PNone w = get_best_modules t (PDict ms) w"
    if "stored_matrix w = PDict ms"
  proof -
    have "py_getitem (load_affinity_matrix w) ''matrix'' = Inr (PDict ms)"
      using that by (cases "py_getitem (load_affinity_matrix w) ''matrix''")
        (simp_all add: stored_matrix_def)
    then show ?thesis by (simp add: get_best_modules_def)
  qed
  show ?thesis using 1 2 b(2,3) by auto
qed

theorem get_best_modules_selects_witness:
  "get_best_modules ''testing''
     (PDict [(''research'', PDict [(''v1'', PDict [(''testing'', PFloat 0.7)]),
                                   (''v2'', PDict [(''testing'', PFloat 0.7)]),
                                   (''v3'', PDict [])]),
             (''unused'', PDict [])]) initial_world
     = Inr (PDict [(''research'', PDict [(''variant'', PStr ''v1''), (''score'', PFloat 0.7)])])
   \<and> wins ''testing'' [(''v1'', PDict [(''testing'', PFloat 0.7)]),
                        (''v2'', PDict [(''testing'', PFloat 0.7)]),
                        (''v3'', PDict [])] ''v1'' (PFloat 0.7)
   \<and> get_best_modules ''testing'' PNone initial_world
     = get_best_modules ''testing'' DEFAULT_AFFINITY initial_world"
proof -
  let ?vs = "[(''v1'', PDict [(''testing'', PFloat 0.7)]),
              (''v2'', PDict [(''testing'', PFloat 0.7)]),
              (''v3'', PDict [])]"
  let ?ms = "[(''research'', PDict ?vs), (''unused'', PDict [])]"
  have a: "selectable ''testing'' (PDict ?ms)"
    by code_simp
  have e: "get_best_modules ''testing'' (PDict ?ms) initial_world
     = Inr (PDict [(''research'', PDict [(''variant'', PStr ''v1''), (''score'', PFloat 0.7)])])"
    by code_simp
  obtain best where b: "get_best_modules ''testing'' (PDict ?ms) initial_world = Inr (PDict best)"
    "\<forall>(m, variants)\<in>set ?ms. \<forall>vs. variants = PDict vs \<and> vs \<noteq> [] \<longrightarrow>
            (\<exists>v x. wins ''testing'' vs v x
               \<and> map_of best m = Some (PDict [(''variant'', PStr v), (''score'', x)]))"
    using get_best_modules_selects[OF a, of initial_world] by blast
  have best: "best = [(''research'', PDict [(''variant'', PStr ''v1''), (''score'', PFloat 0.7)])]"
    using b(1) e by simp
  have "\<exists>v x. wins ''testing'' ?vs v x
               \<and> map_of best ''research'' = Some (PDict [(''variant'', PStr v), (''score'', x)])"
    using b(2) by simp
  then have w: "wins ''testing'' ?vs ''v1'' (PFloat 0.7)"
    unfolding best by simp
  obtain ms where ms: "DEFAULT_AFFINITY = PDict ms"
    by (simp add: DEFAULT_AFFINITY_def)
  have "selectable ''testing'' DEFAULT_AFFINITY"
    by code_simp
  then have s: "selectable ''testing'' (PDict ms)" by (simp only: ms)
  have sm: "stored_matrix initial_world = PDict ms"
    by (simp add: stored_matrix_def load_affinity_matrix_def initial_world_def ms)
  have d: "get_best_modules ''testing'' PNone initial_world
     = get_best_modules ''testing'' DEFAULT_AFFINITY initial_world"
    using get_best_modules_selects[OF s, of initial_world] sm unfolding ms by blast
  show ?thesis using e w d by (intro conjI)
qed

text \<open>
  Without the two conditions the claim fails: a module type whose only variant has the empty
  name is left out, and so is a module type whose scores are all at most -1, although each
  has a variant.
\<close>

theorem get_best_modules_counterexample:
  "get_best_modules ''planning''
     (PDict [(''research'', PDict [('''', PDict [(''planning'', PFloat 0.9)])])]) initial_world
     = Inr (PDict [])
   \<and> get_best_modules ''planning''
     (PDict [(''research'', PDict [(''v1'', PDict [(''planning'', PFloat (- 2))])])]) initial_world
     = Inr (PDict [])"
  by code_simp

text \<open>The scenario of the specification: the best variants for testing in the seed default.\<close>

lemma best_for_testing_on_seed:
  "get_best_modules ''testing'' PNone initial_world =
     Inr (PDict
       [(''research'', PDict [(''variant'', PStr ''v3''), (''score'', PFloat 0.70)]),
        (''structure'', PDict [(''variant'', PStr ''v3''), (''score'', PFloat 0.80)]),
        (''output'', PDict [(''variant'', PStr ''v3''), (''score'', PFloat 0.85)]),
        (''workflow'', PDict [(''variant'', PStr ''v3''), (''score'', PFloat 0.80)]),
        (''input'', PDict [(''variant'', PStr ''v1''), (''score'', PFloat 0.70)]),
        (''validation'', PDict [(''variant'', PStr ''v1''), (''score'', PFloat 0.90)])])"
  by code_simp

section \<open>Loading\<close>




section \<open>The update does not depend on the skill\<close>

text \<open>
  Claim C10.  Two calls of \<^verbatim>\<open>update_affinity\<close> that differ only in the skill raise the same
  exception or none, and leave the same world: the same persisted state (matrix,
  observations and time stamp) and the same module-level default.
\<close>

theorem update_affinity_ignores_skill:
  "update_affinity skill1 task_type modules fitness_delta now w
   = update_affinity skill2 task_type modules fitness_delta now w"
  by (simp add: update_affinity_def)

theorem update_affinity_ignores_skill_witness:
  "update_affinity ''brainstorm'' ''testing'' [(''research'', ''v1'')] 0.05 ''2026-01-01T00:00:00Z''
     initial_world
   = update_affinity ''debugger'' ''testing'' [(''research'', ''v1'')] 0.05 ''2026-01-01T00:00:00Z''
     initial_world"
  by (rule update_affinity_ignores_skill)

end
